theory Spec2Isabelle
  imports Complex_Main "HOL-Library.Word" "HOL-Library.Signed_Division"
begin

unbundle bit_operations_syntax

section \<open>Numbers\<close>

text \<open>
  The program computes in C \<^verbatim>\<open>float\<close> and \<^verbatim>\<open>double\<close>. A scalar of either
  precision is modelled by one type: a finite value carried as a real number, the two
  infinities and NaN. The special values follow IEEE 754 (\<open>x / 0\<close>, \<open>0 * \<infinity>\<close>,
  \<open>\<infinity> - \<infinity>\<close>, comparisons with NaN). Arithmetic on finite values is exact: rounding,
  overflow, underflow and the sign of zero are outside the model, and a conversion
  between the two precisions is the identity.
\<close>

datatype fp = Fin real | PInf | NInf | NaN

fun fneg :: "fp \<Rightarrow> fp" where
  "fneg (Fin a) = Fin (- a)"
| "fneg PInf = NInf"
| "fneg NInf = PInf"
| "fneg NaN = NaN"

fun fadd :: "fp \<Rightarrow> fp \<Rightarrow> fp" where
  "fadd (Fin a) (Fin b) = Fin (a + b)"
| "fadd NaN _ = NaN"
| "fadd _ NaN = NaN"
| "fadd PInf NInf = NaN"
| "fadd NInf PInf = NaN"
| "fadd PInf _ = PInf"
| "fadd _ PInf = PInf"
| "fadd NInf _ = NInf"
| "fadd _ NInf = NInf"

definition fsub :: "fp \<Rightarrow> fp \<Rightarrow> fp" where
  "fsub a b = fadd a (fneg b)"

fun fmul :: "fp \<Rightarrow> fp \<Rightarrow> fp" where
  "fmul (Fin a) (Fin b) = Fin (a * b)"
| "fmul NaN _ = NaN"
| "fmul _ NaN = NaN"
| "fmul (Fin a) PInf = (if a = 0 then NaN else if a < 0 then NInf else PInf)"
| "fmul (Fin a) NInf = (if a = 0 then NaN else if a < 0 then PInf else NInf)"
| "fmul PInf (Fin b) = (if b = 0 then NaN else if b < 0 then NInf else PInf)"
| "fmul NInf (Fin b) = (if b = 0 then NaN else if b < 0 then PInf else NInf)"
| "fmul PInf PInf = PInf"
| "fmul PInf NInf = NInf"
| "fmul NInf PInf = NInf"
| "fmul NInf NInf = PInf"

fun fdiv :: "fp \<Rightarrow> fp \<Rightarrow> fp" where
  "fdiv (Fin a) (Fin b) =
     (if b = 0 then (if a = 0 then NaN else if a < 0 then NInf else PInf)
      else Fin (a / b))"
| "fdiv NaN _ = NaN"
| "fdiv _ NaN = NaN"
| "fdiv (Fin a) PInf = Fin 0"
| "fdiv (Fin a) NInf = Fin 0"
| "fdiv PInf (Fin b) = (if b < 0 then NInf else PInf)"
| "fdiv NInf (Fin b) = (if b < 0 then PInf else NInf)"
| "fdiv PInf PInf = NaN"
| "fdiv PInf NInf = NaN"
| "fdiv NInf PInf = NaN"
| "fdiv NInf NInf = NaN"

fun fsqrt :: "fp \<Rightarrow> fp" where
  "fsqrt (Fin a) = (if a < 0 then NaN else Fin (sqrt a))"
| "fsqrt PInf = PInf"
| "fsqrt NInf = NaN"
| "fsqrt NaN = NaN"

text \<open>\<open>a < b\<close> of C: false as soon as one side is NaN.\<close>

fun flt :: "fp \<Rightarrow> fp \<Rightarrow> bool" where
  "flt (Fin a) (Fin b) = (a < b)"
| "flt NaN _ = False"
| "flt _ NaN = False"
| "flt NInf NInf = False"
| "flt NInf _ = True"
| "flt _ NInf = False"
| "flt PInf _ = False"
| "flt _ PInf = True"

text \<open>\<open>a <= b\<close> of C.\<close>

fun fle :: "fp \<Rightarrow> fp \<Rightarrow> bool" where
  "fle (Fin a) (Fin b) = (a \<le> b)"
| "fle NaN _ = False"
| "fle _ NaN = False"
| "fle NInf _ = True"
| "fle _ PInf = True"
| "fle PInf _ = False"
| "fle _ NInf = False"

fun isnan :: "fp \<Rightarrow> bool" where
  "isnan NaN = True"
| "isnan _ = False"

fun isfinite :: "fp \<Rightarrow> bool" where
  "isfinite (Fin a) = True"
| "isfinite _ = False"

text \<open>\<open>x != 0\<close> of C: true for NaN and for the infinities.\<close>

definition fnonzero :: "fp \<Rightarrow> bool" where
  "fnonzero x = (x \<noteq> Fin 0)"

section \<open>bessel.h, bessel.c\<close>

definition SH_BUFFER_SIZE :: int where
  "SH_BUFFER_SIZE = 64"

definition BESSEL_MIN_THRESHOLD :: fp where
  "BESSEL_MIN_THRESHOLD = Fin (1 / 1000)"

definition BESSEL_FREQ_CUTOFF :: fp where
  "BESSEL_FREQ_CUTOFF = Fin 5"

text \<open>
  A C array is a function from the C index to the element. An index outside the
  array's bounds denotes whatever lies beside the array in memory: the model gives it
  some content and the theorems on bounds say which indices the code uses.
\<close>

type_synonym farray = "int \<Rightarrow> fp"

text \<open>
  \<^verbatim>\<open>factorial\<close>: \<open>result = 1; i = i + 1; while (--i > 0) result *= i;\<close>.
  \<open>fact_loop i result\<close> is the loop entered with the counter \<open>i\<close> not yet
  decremented.
\<close>

function fact_loop :: "int \<Rightarrow> fp \<Rightarrow> fp" where
  "fact_loop i result =
     (if i - 1 > 0 then fact_loop (i - 1) (fmul result (Fin (real_of_int (i - 1))))
      else result)"
  by pat_completeness auto
termination
  by (relation "measure (\<lambda>(i, r). nat i)") auto

definition factorial :: "int \<Rightarrow> fp" where
  "factorial i = fact_loop (i + 1) (Fin 1)"

text \<open>
  \<^verbatim>\<open>calculateBessel\<close>, first loop: \<open>coeff[i]\<close> for \<open>i = 0 .. order\<close>.
  \<open>1 << (order - i)\<close> is \<open>2 ^ (order - i)\<close> (the order is at most 5).
\<close>

definition bessel_poly_coeff :: "int \<Rightarrow> int \<Rightarrow> fp" where
  "bessel_poly_coeff order i =
     fdiv (factorial (2 * order - i))
          (fmul (fmul (Fin (real_of_int (2 ^ nat (order - i)))) (factorial i))
                (factorial (order - i)))"

function coeff_loop :: "int \<Rightarrow> int \<Rightarrow> farray \<Rightarrow> farray" where
  "coeff_loop order i coeff =
     (if i < order + 1
      then coeff_loop order (i + 1) (coeff(i := bessel_poly_coeff order i))
      else coeff)"
  by pat_completeness auto
termination
  by (relation "measure (\<lambda>(order, i, c). nat (order + 1 - i))") auto

text \<open>
  The inner loop of the second part: \<open>arr[j] += coeff[i] * pow_num;
  pow_num *= j / freq_cutoff\<close> for \<open>i = 0 .. order\<close>; the state is the pair
  \<open>(arr[j], pow_num)\<close>.
\<close>

function transfer_loop :: "farray \<Rightarrow> int \<Rightarrow> fp \<Rightarrow> int \<Rightarrow> int \<Rightarrow> fp \<times> fp \<Rightarrow> fp \<times> fp" where
  "transfer_loop coeff order freq_cutoff j i acc =
     (if i < order + 1
      then transfer_loop coeff order freq_cutoff j (i + 1)
             (fadd (fst acc) (fmul (coeff i) (snd acc)),
              fmul (snd acc) (fdiv (Fin (real_of_int j)) freq_cutoff))
      else acc)"
  by pat_completeness auto
termination
  by (relation "measure (\<lambda>(c, order, f, j, i, a). nat (order + 1 - i))") auto

function kernel_loop :: "farray \<Rightarrow> int \<Rightarrow> fp \<Rightarrow> int \<Rightarrow> int \<Rightarrow> farray \<Rightarrow> farray" where
  "kernel_loop coeff order freq_cutoff sz j arr =
     (if j < sz
      then kernel_loop coeff order freq_cutoff sz (j + 1)
             (arr(j := fdiv (coeff 0)
                          (fst (transfer_loop coeff order freq_cutoff j 0 (Fin 0, Fin 1)))))
      else arr)"
  by pat_completeness auto
termination
  by (relation "measure (\<lambda>(c, order, f, sz, j, a). nat (sz - j))") auto

text \<open>
  \<^verbatim>\<open>calculateBessel(arr, size, order, freq_cutoff)\<close>. \<open>alloc_ok\<close> says whether
  \<^verbatim>\<open>calloc\<close> returned a block: when it did not, the function returns with \<open>arr\<close>
  as it was. The block is zeroed by \<^verbatim>\<open>calloc\<close>.
\<close>

definition calculateBessel :: "bool \<Rightarrow> farray \<Rightarrow> int \<Rightarrow> int \<Rightarrow> fp \<Rightarrow> farray" where
  "calculateBessel alloc_ok arr sz order0 freq_cutoff =
     (let order = (if order0 > 5 then 5 else order0) in
      if \<not> alloc_ok then arr
      else let coeff = coeff_loop order 0 (\<lambda>_. Fin 0)
           in kernel_loop coeff order freq_cutoff sz 0 arr)"

text \<open>
  The loop of \<^verbatim>\<open>dfilterBessel\<close> and \<^verbatim>\<open>ffilterBessel\<close> (their bodies are the same
  text, the types apart). One call of \<open>bessel_walk\<close> is one pass through the loop body
  at \<open>(i, coeff_index, val, coeff_sum)\<close>. The result is the final
  \<open>(val, coeff_sum, coeff_index)\<close> and, as a ghost value, the array accesses in program
  order. The exit test is C's short-circuit \<open>||\<close>: the coefficient at the new
  \<open>coeff_index\<close> is read only when \<open>i \<noteq> index\<close>, and before \<open>coeff_index\<close> is
  compared with the buffer size.
\<close>

datatype access = Coeff int | Data int

function bessel_walk ::
  "farray \<Rightarrow> farray \<Rightarrow> int \<Rightarrow> int \<Rightarrow> int \<Rightarrow> fp \<Rightarrow> fp \<Rightarrow> access list \<Rightarrow> (fp \<times> fp \<times> int) \<times> access list" where
  "bessel_walk bessel_coeff arr index i coeff_index val coeff_sum trace =
     (let val' = fadd val (fmul (bessel_coeff coeff_index) (arr i));
          coeff_sum' = fadd coeff_sum (bessel_coeff coeff_index);
          trace' = trace @ [Coeff coeff_index, Data i, Coeff coeff_index];
          i' = i - 1;
          i'' = (if i' < 0 then SH_BUFFER_SIZE - 1 else i');
          coeff_index' = coeff_index + 1
      in if i'' = index then ((val', coeff_sum', coeff_index'), trace')
         else if flt (bessel_coeff coeff_index') BESSEL_MIN_THRESHOLD
                 \<or> coeff_index' > SH_BUFFER_SIZE
         then ((val', coeff_sum', coeff_index'), trace' @ [Coeff coeff_index'])
         else bessel_walk bessel_coeff arr index i'' coeff_index' val' coeff_sum'
                (trace' @ [Coeff coeff_index']))"
  by pat_completeness auto
termination
  by (relation "measure (\<lambda>(c, a, index, i, k, v, s, l). nat (65 - k))")
     (auto simp: SH_BUFFER_SIZE_def)

definition dfilterBessel :: "farray \<Rightarrow> farray \<Rightarrow> int \<Rightarrow> fp" where
  "dfilterBessel bessel_coeff arr index =
     (case fst (bessel_walk bessel_coeff arr index index 0 (Fin 0) (Fin 0) []) of
        (val, coeff_sum, _) \<Rightarrow> fdiv val coeff_sum)"

definition ffilterBessel :: "farray \<Rightarrow> farray \<Rightarrow> int \<Rightarrow> fp" where
  "ffilterBessel bessel_coeff arr index =
     (case fst (bessel_walk bessel_coeff arr index index 0 (Fin 0) (Fin 0) []) of
        (val, coeff_sum, _) \<Rightarrow> fdiv val coeff_sum)"

text \<open>
  The slot before \<open>i\<close> on the ring, as the loop computes it (\<open>i--\<close>, then the wrap
  to \<open>SH_BUFFER_SIZE - 1\<close>), and the bounds of an access: both arrays have
  \<open>SH_BUFFER_SIZE\<close> elements.
\<close>

definition prev_slot :: "int \<Rightarrow> int" where
  "prev_slot i = (if i - 1 < 0 then SH_BUFFER_SIZE - 1 else i - 1)"

fun access_ok :: "access \<Rightarrow> bool" where
  "access_ok (Coeff k) = (0 \<le> k \<and> k < SH_BUFFER_SIZE)"
| "access_ok (Data i) = (0 \<le> i \<and> i < SH_BUFFER_SIZE)"

section \<open>macros.h\<close>

text \<open>
  \<^verbatim>\<open>q2isqrt\<close> has two bodies, chosen at compile time by \<^verbatim>\<open>MATH_SQRT\<close>. The
  functions that normalise a vector take the chosen one as the parameter
  \<open>q2isqrt\<close>.

  With \<^verbatim>\<open>MATH_SQRT\<close>: \<open>return 1.0 / sqrt(x)\<close>.
\<close>

definition q2isqrt_sqrt :: "fp \<Rightarrow> fp" where
  "q2isqrt_sqrt x = fdiv (Fin 1) (fsqrt x)"

text \<open>
  Without \<^verbatim>\<open>MATH_SQRT\<close> the body works on the bits of the argument.
  \<open>float_of_bits\<close> reads a 32-bit pattern as an IEEE 754 binary32 number
  (\<open>*(float *)&i\<close>); \<open>q2isqrt_bits\<close> takes the argument \<open>x\<close> as its bit pattern
  (\<open>*(int *)&x\<close>). \<open>>>\<close> on the signed pattern is the arithmetic shift.
\<close>

definition float_of_bits :: "32 word \<Rightarrow> fp" where
  "float_of_bits w =
     (let e = unat (take_bit 8 (drop_bit 23 w));
          m = unat (take_bit 23 w);
          s = (if bit w 31 then - 1 else 1 :: real)
      in if e = 255 then (if m = 0 then (if bit w 31 then NInf else PInf) else NaN)
         else if e = 0 then Fin (s * real m / 2 ^ 149)
         else Fin (s * real (2 ^ 23 + m) * 2 ^ e / 2 ^ 150))"

definition newton_round :: "fp \<Rightarrow> fp \<Rightarrow> fp" where
  "newton_round xhalf x = fmul x (fsub (Fin (3 / 2)) (fmul (fmul xhalf x) x))"

definition q2isqrt_bits :: "32 word \<Rightarrow> fp" where
  "q2isqrt_bits xbits =
     (let x = float_of_bits xbits;
          xhalf = fmul x (Fin (1 / 2));
          i = 0x5f375a86 - signed_drop_bit 1 xbits;
          x = float_of_bits i;
          x = newton_round xhalf x;
          x = newton_round xhalf x;
          x = newton_round xhalf x
      in x)"

text \<open>
  \<^verbatim>\<open>DECLARE_BUFFER(name, type)\<close> declares the three arrays \<open>x_name\<close>, \<open>y_name\<close>,
  \<open>z_name\<close>; \<^verbatim>\<open>DECLARE_VECTOR(name, type)\<close> the three scalars. The vector macros
  paste \<open>x_\<close>, \<open>y_\<close>, \<open>z_\<close> before their argument, so \<open>g_B[i]\<close> as an argument
  is the triple \<open>(x_g_B[i], y_g_B[i], z_g_B[i])\<close>: \<open>slot\<close> reads it, \<open>slot_upd\<close>
  assigns it.
\<close>

record buffer =
  x_arr :: farray
  y_arr :: farray
  z_arr :: farray

type_synonym vec = "fp \<times> fp \<times> fp"

definition slot :: "buffer \<Rightarrow> int \<Rightarrow> vec" where
  "slot b i = (x_arr b i, y_arr b i, z_arr b i)"

definition slot_upd :: "buffer \<Rightarrow> int \<Rightarrow> vec \<Rightarrow> buffer" where
  "slot_upd b i v =
     (case v of (x, y, z) \<Rightarrow>
        b\<lparr>x_arr := (x_arr b)(i := x), y_arr := (y_arr b)(i := y), z_arr := (z_arr b)(i := z)\<rparr>)"

definition null_vec :: vec where
  "null_vec = (Fin 0, Fin 0, Fin 0)"

definition VECTOR_CLEAR :: "buffer \<Rightarrow> int \<Rightarrow> buffer" where
  "VECTOR_CLEAR b i = slot_upd b i null_vec"

definition CROSS_PRODUCT :: "vec \<Rightarrow> vec \<Rightarrow> vec" where
  "CROSS_PRODUCT s1 s2 =
     (case s1 of (x1, y1, z1) \<Rightarrow> case s2 of (x2, y2, z2) \<Rightarrow>
        (fsub (fmul y1 z2) (fmul z1 y2),
         fsub (fmul z1 x2) (fmul x1 z2),
         fsub (fmul x1 y2) (fmul y1 x2)))"

definition VECTOR_OP :: "(fp \<Rightarrow> fp \<Rightarrow> fp) \<Rightarrow> vec \<Rightarrow> vec \<Rightarrow> vec" where
  "VECTOR_OP opr s1 s2 =
     (case s1 of (x1, y1, z1) \<Rightarrow> case s2 of (x2, y2, z2) \<Rightarrow>
        (opr x1 x2, opr y1 y2, opr z1 z2))"

text \<open>
  \<^verbatim>\<open>VECTOR_MIXED(dest, s1, s2, op)\<close> expands to \<open>x_dest = x_s1 op s2\<close> with the
  text of \<open>s2\<close> pasted in without parentheses. The model takes the expanded right-hand
  side as a function of the component.
\<close>

definition VECTOR_MIXED :: "(fp \<Rightarrow> fp) \<Rightarrow> vec \<Rightarrow> vec" where
  "VECTOR_MIXED rhs s1 = (case s1 of (x1, y1, z1) \<Rightarrow> (rhs x1, rhs y1, rhs z1))"

definition NORM2 :: "vec \<Rightarrow> fp" where
  "NORM2 s = (case s of (x, y, z) \<Rightarrow> fadd (fadd (fmul x x) (fmul y y)) (fmul z z))"

definition NORM :: "vec \<Rightarrow> fp" where
  "NORM s = fsqrt (NORM2 s)"

definition INVNORM :: "(fp \<Rightarrow> fp) \<Rightarrow> vec \<Rightarrow> fp" where
  "INVNORM q2isqrt s = q2isqrt (NORM2 s)"

text \<open>
  \<^verbatim>\<open>NORMALIZE(dest, s1)\<close>: a \<open>for\<close> whose body runs once, when
  \<open>sh__temp != 0\<close>, and not at all otherwise. The result is the new \<open>dest\<close>.
\<close>

definition NORMALIZE :: "(fp \<Rightarrow> fp) \<Rightarrow> vec \<Rightarrow> vec \<Rightarrow> vec" where
  "NORMALIZE q2isqrt dest s1 =
     (let sh__temp = INVNORM q2isqrt s1
      in if fnonzero sh__temp
         then (case s1 of (x, y, z) \<Rightarrow> (fmul x sh__temp, fmul y sh__temp, fmul z sh__temp))
         else dest)"

definition APPLY_DBESSEL :: "farray \<Rightarrow> buffer \<Rightarrow> int \<Rightarrow> buffer" where
  "APPLY_DBESSEL bessel_coeff b index =
     (let b = b\<lparr>x_arr := (x_arr b)(index := dfilterBessel bessel_coeff (x_arr b) index)\<rparr>;
          b = b\<lparr>y_arr := (y_arr b)(index := dfilterBessel bessel_coeff (y_arr b) index)\<rparr>;
          b = b\<lparr>z_arr := (z_arr b)(index := dfilterBessel bessel_coeff (z_arr b) index)\<rparr>
      in b)"

definition APPLY_FBESSEL :: "farray \<Rightarrow> buffer \<Rightarrow> int \<Rightarrow> buffer" where
  "APPLY_FBESSEL bessel_coeff b index =
     (let b = b\<lparr>x_arr := (x_arr b)(index := ffilterBessel bessel_coeff (x_arr b) index)\<rparr>;
          b = b\<lparr>y_arr := (y_arr b)(index := ffilterBessel bessel_coeff (y_arr b) index)\<rparr>;
          b = b\<lparr>z_arr := (z_arr b)(index := ffilterBessel bessel_coeff (z_arr b) index)\<rparr>
      in b)"

section \<open>acs-datagen.h\<close>

text \<open>
  The globals that \<^verbatim>\<open>readSensors\<close>, \<^verbatim>\<open>getOmega\<close> and \<^verbatim>\<open>getSVec\<close> read or write,
  with the coefficient array of bessel.c. \<open>tnow\<close> feeds only the synthetic
  measurements and is left out with them (see \<open>sample\<close>).
\<close>

record acs =
  g_W :: buffer
  g_B :: buffer
  g_Bt :: buffer
  g_S :: buffer
  g_CSS :: farray
  mag_index :: int
  omega_index :: int
  bdot_index :: int
  sol_index :: int
  B_full :: int
  Bdot_full :: int
  W_full :: int
  S_full :: int
  g_night :: "8 word"
  acs_ct :: "64 word"
  bessel_coeff :: farray

definition DETUMBLE_TIME_STEP :: int where
  "DETUMBLE_TIME_STEP = 100000"

definition CSS_MIN_LUX_THRESHOLD :: fp where
  "CSS_MIN_LUX_THRESHOLD = Fin 500"

text \<open>A value stored into an \<^verbatim>\<open>int8_t\<close>.\<close>

definition int8_t :: "int \<Rightarrow> int" where
  "int8_t k = sint (word_of_int k :: 8 word)"

definition getOmega :: "acs \<Rightarrow> acs" where
  "getOmega st =
     (if mag_index st < 2 \<and> B_full st = 0 then st
      else
        let st = (if omega_index st = SH_BUFFER_SIZE - 1 then st\<lparr>W_full := 1\<rparr> else st);
            st = st\<lparr>omega_index := (1 + omega_index st) smod SH_BUFFER_SIZE\<rparr>;
            m1 = int8_t (bdot_index st);
            m0 = int8_t (if bdot_index st - 1 < 0 then SH_BUFFER_SIZE - bdot_index st - 1
                         else bdot_index st - 1);
            freq = fdiv (Fin 1000000) (Fin (real_of_int DETUMBLE_TIME_STEP));
            st = st\<lparr>g_W := slot_upd (g_W st) (omega_index st)
                              (CROSS_PRODUCT (slot (g_Bt st) m1) (slot (g_Bt st) m0))\<rparr>;
            norm2 = NORM2 (slot (g_Bt st) m0);
            st = st\<lparr>g_W := slot_upd (g_W st) (omega_index st)
                              (VECTOR_MIXED (\<lambda>c. fdiv (fmul c freq) norm2)
                                 (slot (g_W st) (omega_index st)))\<rparr>
        in st\<lparr>g_W := APPLY_FBESSEL (bessel_coeff st) (g_W st) (omega_index st)\<rparr>)"

definition getSVec :: "(fp \<Rightarrow> fp) \<Rightarrow> acs \<Rightarrow> acs" where
  "getSVec q2isqrt st =
     (let st = (if sol_index st = SH_BUFFER_SIZE - 1 then st\<lparr>S_full := 1\<rparr> else st);
          st = st\<lparr>sol_index := (sol_index st + 1) smod SH_BUFFER_SIZE\<rparr>;
          znavg = fadd (fadd (Fin 0) (g_CSS st 5)) (g_CSS st 6);
          znavg = fmul znavg (Fin (1 / 2));
          st = st\<lparr>g_S := slot_upd (g_S st) (sol_index st)
                            (fsub (g_CSS st 0) (g_CSS st 1),
                             fsub (g_CSS st 2) (g_CSS st 3),
                             fsub (g_CSS st 4) znavg)\<rparr>;
          css_mag = NORM (slot (g_S st) (sol_index st))
      in if flt css_mag CSS_MIN_LUX_THRESHOLD
         then st\<lparr>g_night := 1, g_S := VECTOR_CLEAR (g_S st) (sol_index st)\<rparr>
         else st\<lparr>g_night := 0,
                 g_S := slot_upd (g_S st) (sol_index st)
                          (NORMALIZE q2isqrt (slot (g_S st) (sol_index st))
                                             (slot (g_S st) (sol_index st)))\<rparr>)"

text \<open>
  \<^verbatim>\<open>readSensors\<close> computes its measurements itself, from \<open>tnow\<close>, \<open>sin\<close>, \<open>cos\<close>
  and \<open>rand()\<close>. The six expressions with these calls are the input of a cycle:
  the three \<open>mag_measure\<close> and the right-hand sides of \<open>g_CSS[0]\<close>, \<open>g_CSS[2]\<close>,
  \<open>g_CSS[4]\<close>. The other four channels are computed from these as in the source.
\<close>

record sample =
  mag_measure :: vec
  css_x :: fp
  css_y :: fp
  css_z :: fp

definition read_css :: "sample \<Rightarrow> farray \<Rightarrow> farray" where
  "read_css s css =
     (let css = css(0 := css_x s);
          css = css(1 := fneg (css 0));
          css = css(2 := css_y s);
          css = css(3 := fneg (css 2));
          css = css(4 := css_z s);
          css = css(5 := fneg (css 4));
          css = css(6 := css 5)
      in css)"

text \<open>
  The part of \<^verbatim>\<open>readSensors\<close> up to the first \<open>return\<close>: the new field sample is
  stored and filtered. \<open>mag_val\<close> is computed and never used.
\<close>

definition read_field :: "(fp \<Rightarrow> fp) \<Rightarrow> sample \<Rightarrow> acs \<Rightarrow> acs" where
  "read_field q2isqrt s st =
     (let st = st\<lparr>acs_ct := acs_ct st + 1\<rparr>;
          st = (if mag_index st = SH_BUFFER_SIZE - 1 then st\<lparr>B_full := 1\<rparr> else st);
          st = st\<lparr>mag_index := (mag_index st + 1) smod SH_BUFFER_SIZE\<rparr>;
          st = st\<lparr>g_B := VECTOR_CLEAR (g_B st) (mag_index st)\<rparr>;
          st = st\<lparr>g_CSS := read_css s (g_CSS st)\<rparr>;
          mag_mes = mag_measure s;
          mag_val = NORMALIZE q2isqrt null_vec mag_mes;
          mag_val = VECTOR_MIXED (\<lambda>c. fmul c (Fin 600)) mag_val;
          st = st\<lparr>g_B := slot_upd (g_B st) (mag_index st) mag_mes\<rparr>
      in st\<lparr>g_B := APPLY_DBESSEL (bessel_coeff st) (g_B st) (mag_index st)\<rparr>)"

text \<open>The field rate, between the first \<open>return\<close> and the call of \<^verbatim>\<open>getOmega\<close>.\<close>

definition read_bdot :: "acs \<Rightarrow> acs" where
  "read_bdot st =
     (let st = (if bdot_index st = SH_BUFFER_SIZE - 1 then st\<lparr>B_full := 1\<rparr> else st);
          st = st\<lparr>bdot_index := (bdot_index st + 1) smod SH_BUFFER_SIZE\<rparr>;
          m1 = int8_t (mag_index st);
          m0 = int8_t (if mag_index st - 1 < 0 then SH_BUFFER_SIZE - mag_index st - 1
                       else mag_index st - 1);
          freq = fdiv (Fin 1000000) (fmul (Fin (real_of_int DETUMBLE_TIME_STEP)) (Fin 1));
          st = st\<lparr>g_Bt := slot_upd (g_Bt st) (bdot_index st)
                             (VECTOR_OP fsub (slot (g_B st) m1) (slot (g_B st) m0))\<rparr>;
          st = st\<lparr>g_Bt := slot_upd (g_Bt st) (bdot_index st)
                             (VECTOR_MIXED (\<lambda>c. fmul c freq) (slot (g_Bt st) (bdot_index st)))\<rparr>
      in st\<lparr>g_Bt := APPLY_DBESSEL (bessel_coeff st) (g_Bt st) (bdot_index st)\<rparr>)"

text \<open>
  The chain of \<open>isnan\<close> tests that ends \<^verbatim>\<open>readSensors\<close>: \<open>-1\<close> at the first NaN,
  \<open>status\<close> otherwise.
\<close>

definition nan_check :: "int \<Rightarrow> acs \<Rightarrow> int" where
  "nan_check status st =
     (if isnan (x_arr (g_B st) (mag_index st)) then - 1
      else if isnan (y_arr (g_B st) (mag_index st)) then - 1
      else if isnan (z_arr (g_B st) (mag_index st)) then - 1
      else if isnan (x_arr (g_W st) (omega_index st)) then - 1
      else if isnan (y_arr (g_W st) (omega_index st)) then - 1
      else if isnan (z_arr (g_W st) (omega_index st)) then - 1
      else if isnan (x_arr (g_S st) (sol_index st)) then - 1
      else if isnan (y_arr (g_S st) (sol_index st)) then - 1
      else if isnan (z_arr (g_S st) (sol_index st)) then - 1
      else status)"

text \<open>\<^verbatim>\<open>readSensors\<close>: the status returned and the globals after the call.\<close>

definition readSensors :: "(fp \<Rightarrow> fp) \<Rightarrow> sample \<Rightarrow> acs \<Rightarrow> int \<times> acs" where
  "readSensors q2isqrt s st =
     (let status = 1;
          st = read_field q2isqrt s st
      in if mag_index st < 1 \<and> B_full st = 0 then (status, st)
         else
           let st = read_bdot st;
               st = getOmega st;
               st = getSVec q2isqrt st
           in (nan_check status st, st))"

text \<open>
  The globals at program start: the buffers zeroed, the cursors at \<open>-1\<close>, the flags
  clear. \<open>stray\<close> is the content found beside the arrays, at indices outside
  \<open>0 .. 63\<close>; \<open>coeffs\<close> is the coefficient array, which \<^verbatim>\<open>main\<close> fills with
  \<open>calculateBessel(bessel_coeff, SH_BUFFER_SIZE, 3, BESSEL_FREQ_CUTOFF)\<close> before the
  first cycle.
\<close>

definition zeroed :: "farray \<Rightarrow> farray" where
  "zeroed stray = (\<lambda>i. if 0 \<le> i \<and> i < SH_BUFFER_SIZE then Fin 0 else stray i)"

definition zero_buffer :: "farray \<Rightarrow> buffer" where
  "zero_buffer stray = \<lparr>x_arr = zeroed stray, y_arr = zeroed stray, z_arr = zeroed stray\<rparr>"

definition init_acs :: "farray \<Rightarrow> farray \<Rightarrow> acs" where
  "init_acs stray coeffs =
     \<lparr>g_W = zero_buffer stray, g_B = zero_buffer stray, g_Bt = zero_buffer stray,
      g_S = zero_buffer stray, g_CSS = (\<lambda>_. Fin 0),
      mag_index = - 1, omega_index = - 1, bdot_index = - 1, sol_index = - 1,
      B_full = 0, Bdot_full = 0, W_full = 0, S_full = 0,
      g_night = 0, acs_ct = 0, bessel_coeff = coeffs\<rparr>"

definition main_kernel :: farray where
  "main_kernel = calculateBessel True (\<lambda>_. Fin 0) SH_BUFFER_SIZE 3 BESSEL_FREQ_CUTOFF"

text \<open>Consecutive cycles: the states after each sample, with the statuses returned.\<close>

fun run :: "(fp \<Rightarrow> fp) \<Rightarrow> sample list \<Rightarrow> acs \<Rightarrow> int list \<times> acs" where
  "run q2isqrt [] st = ([], st)"
| "run q2isqrt (s # ss) st =
     (case readSensors q2isqrt s st of
        (status, st') \<Rightarrow> (case run q2isqrt ss st' of (sts, st'') \<Rightarrow> (status # sts, st'')))"

section \<open>Cursors and flags over consecutive cycles\<close>

text \<open>
  \<open>cur k n\<close> is the cursor, after \<open>n\<close> cycles, of a buffer written for the first
  time in cycle \<open>k\<close>: \<open>-1\<close> before its first write, then the number of writes minus
  one, modulo the buffer size. \<open>full_after k n\<close> is its flag when the flag is raised
  by the write that wraps the cursor. \<open>cursors_at n\<close> collects what the globals hold
  after \<open>n\<close> cycles from program start.
\<close>

definition cur :: "int \<Rightarrow> int \<Rightarrow> int" where
  "cur k n = (if n < k then - 1 else (n - k) mod 64)"

definition full_after :: "int \<Rightarrow> int \<Rightarrow> int" where
  "full_after k n = (if k + 64 \<le> n then 1 else 0)"

definition cursors_at :: "int \<Rightarrow> acs \<Rightarrow> bool" where
  "cursors_at n st =
     (mag_index st = cur 1 n \<and> bdot_index st = cur 2 n \<and> sol_index st = cur 2 n \<and>
      omega_index st = cur 3 n \<and> B_full st = full_after 1 n \<and> Bdot_full st = 0 \<and>
      W_full st = full_after 3 n \<and> S_full st = full_after 2 n)"

section \<open>Inputs of the examples\<close>

definition sample_dark :: sample where
  "sample_dark = \<lparr>mag_measure = (Fin 1, Fin 2, Fin 3), css_x = Fin 0, css_y = Fin 0, css_z = Fin 0\<rparr>"

definition sample_sun :: sample where
  "sample_sun = \<lparr>mag_measure = (Fin 1, Fin 2, Fin 3), css_x = Fin 300, css_y = Fin 400, css_z = Fin 0\<rparr>"

definition no_stray :: farray where
  "no_stray = (\<lambda>_. Fin 0)"

definition identity_kernel :: farray where
  "identity_kernel = (\<lambda>k. if k = 0 then Fin 1 else Fin 0)"

definition bdot_pair_state :: acs where
  "bdot_pair_state =
     (init_acs no_stray identity_kernel)
       \<lparr>g_Bt := slot_upd (slot_upd (zero_buffer no_stray) 0 (Fin 0, Fin 0, Fin 1))
                  1 (Fin 1, Fin 0, Fin 0),
        mag_index := 2, bdot_index := 1\<rparr>"

section \<open>The kernel in exact arithmetic\<close>

text \<open>
  The real numbers behind \<^verbatim>\<open>calculateBessel\<close>: \<open>poly_real order i\<close> is the value of
  \<open>coeff[i]\<close>, \<open>transfer_real\<close> is the inner loop on reals, and \<open>weight_real order c j\<close>
  is the weight stored in \<open>arr[j]\<close> for the cutoff \<open>c\<close>. \<open>positive_kernel\<close> says that
  the 64 coefficients are finite and positive.
\<close>

definition poly_real :: "int \<Rightarrow> int \<Rightarrow> real" where
  "poly_real order i =
     (if 0 \<le> i \<and> i \<le> order
      then fact (nat (2 * order - i)) / (2 ^ nat (order - i) * fact (nat i) * fact (nat (order - i)))
      else 0)"

function transfer_real :: "(int \<Rightarrow> real) \<Rightarrow> int \<Rightarrow> real \<Rightarrow> int \<Rightarrow> real \<times> real \<Rightarrow> real \<times> real" where
  "transfer_real a order u i acc =
     (if i < order + 1
      then transfer_real a order u (i + 1) (fst acc + a i * snd acc, snd acc * u)
      else acc)"
  by pat_completeness auto
termination
  by (relation "measure (\<lambda>(a, order, u, i, acc). nat (order + 1 - i))") auto

definition weight_real :: "int \<Rightarrow> real \<Rightarrow> int \<Rightarrow> real" where
  "weight_real order c j =
     poly_real order 0 / fst (transfer_real (poly_real order) order (real_of_int j / c) 0 (0, 1))"

definition positive_kernel :: "farray \<Rightarrow> bool" where
  "positive_kernel c = (\<forall>k. 0 \<le> k \<and> k < 64 \<longrightarrow> (\<exists>w. 0 < w \<and> c k = Fin w))"

section \<open>The status of a cycle\<close>

text \<open>
  \<open>has_nan\<close>: one of the three components is a NaN. \<open>computes_omega\<close>: the cycle
  passes both guards, the one of \<^verbatim>\<open>readSensors\<close> (\<open>mag_index < 1 && B_full == 0\<close>,
  tested after the field is stored) and the one of \<^verbatim>\<open>getOmega\<close>
  (\<open>mag_index < 2 && B_full == 0\<close>, tested after the field rate is stored), so that
  the field rate, the angular velocity and the sun vector are all written.
\<close>

definition has_nan :: "vec \<Rightarrow> bool" where
  "has_nan v = (case v of (x, y, z) \<Rightarrow> isnan x \<or> isnan y \<or> isnan z)"

definition computes_omega :: "(fp \<Rightarrow> fp) \<Rightarrow> sample \<Rightarrow> acs \<Rightarrow> bool" where
  "computes_omega q s st =
     (let st1 = read_field q s st
      in \<not> (mag_index st1 < 1 \<and> B_full st1 = 0) \<and>
         \<not> (mag_index (read_bdot st1) < 2 \<and> B_full (read_bdot st1) = 0))"

section \<open>Finite, non-negative and positive contents\<close>

text \<open>
  Predicates on the 64 slots of an array or of a buffer, and on a vector, used to follow
  the values through a cycle.
\<close>

definition finite_array :: "farray \<Rightarrow> bool" where
  "finite_array arr = (\<forall>i. 0 \<le> i \<and> i < 64 \<longrightarrow> isfinite (arr i))"

definition nonneg_array :: "farray \<Rightarrow> bool" where
  "nonneg_array arr = (\<forall>i. 0 \<le> i \<and> i < 64 \<longrightarrow> (\<exists>a. 0 \<le> a \<and> arr i = Fin a))"

definition finite_buffer :: "buffer \<Rightarrow> bool" where
  "finite_buffer b = (finite_array (x_arr b) \<and> finite_array (y_arr b) \<and> finite_array (z_arr b))"

definition nonneg_buffer :: "buffer \<Rightarrow> bool" where
  "nonneg_buffer b = (nonneg_array (x_arr b) \<and> nonneg_array (y_arr b) \<and> nonneg_array (z_arr b))"

definition finite_vec :: "vec \<Rightarrow> bool" where
  "finite_vec v = (case v of (x, y, z) \<Rightarrow> isfinite x \<and> isfinite y \<and> isfinite z)"

definition positive_vec :: "vec \<Rightarrow> bool" where
  "positive_vec v = (case v of (x, y, z) \<Rightarrow> flt (Fin 0) x \<and> isfinite x \<and> flt (Fin 0) y \<and> isfinite y \<and>
                                           flt (Fin 0) z \<and> isfinite z)"

text \<open>
  The local \<open>freq\<close> of \<^verbatim>\<open>readSensors\<close> (\<open>1e6 / (DETUMBLE_TIME_STEP * 1.0)\<close>) and that of
  \<^verbatim>\<open>getOmega\<close> (\<open>1e6 / DETUMBLE_TIME_STEP\<close>): both are 10.
\<close>

definition freq_d :: fp where
  "freq_d = fdiv (Fin 1000000) (fmul (Fin (real_of_int DETUMBLE_TIME_STEP)) (Fin 1))"

definition freq_f :: fp where
  "freq_f = fdiv (Fin 1000000) (Fin (real_of_int DETUMBLE_TIME_STEP))"

text \<open>
  Two more inputs of the examples: a sample with a null field, and one whose field has
  an infinite first component. Both are dark.
\<close>

definition sample_still :: sample where
  "sample_still = \<lparr>mag_measure = (Fin 0, Fin 0, Fin 0), css_x = Fin 0, css_y = Fin 0, css_z = Fin 0\<rparr>"

definition sample_glare :: sample where
  "sample_glare = \<lparr>mag_measure = (PInf, Fin 2, Fin 3), css_x = Fin 0, css_y = Fin 0, css_z = Fin 0\<rparr>"

text \<open>A sample whose field has a NaN as its first component.\<close>

definition sample_nan :: sample where
  "sample_nan = \<lparr>mag_measure = (NaN, Fin 2, Fin 3), css_x = Fin 0, css_y = Fin 0, css_z = Fin 0\<rparr>"

section \<open>The buffer reads of a cycle\<close>

text \<open>
  The slots of the four ring buffers that a call of \<^verbatim>\<open>readSensors\<close> reads, in program
  order, as a ghost value beside the model of the cycle. A read is the buffer and the
  index, whichever of the three component arrays is read.

  \<open>data_reads\<close> keeps the data accesses of a filter walk; \<open>walk_reads\<close> is the walk of
  one call of \<^verbatim>\<open>dfilterBessel\<close> or \<^verbatim>\<open>ffilterBessel\<close>. The exit test of the loop looks
  at the index and at the coefficients only, so the slots read do not depend on the data
  (lemma \<open>walk_reads_any\<close>) and \<open>walk_reads\<close> takes no array. \<open>apply_reads\<close> is
  \<^verbatim>\<open>APPLY_DBESSEL\<close> or \<^verbatim>\<open>APPLY_FBESSEL\<close>: three walks from the same index.

  Each of the next five functions takes the globals as its part of the cycle leaves
  them, with the cursor it has advanced:
  \<^item> \<open>field_reads\<close>, the part up to the first \<open>return\<close>: the filter on \<open>g_B\<close>;
  \<^item> \<open>bdot_reads\<close>: \<open>g_B[m1]\<close> and \<open>g_B[m0]\<close> of the difference, \<open>g_Bt[bdot_index]\<close>
    of the scaling, the filter on \<open>g_Bt\<close>;
  \<^item> \<open>omega_reads\<close>, \<^verbatim>\<open>getOmega\<close>: nothing when it returns at its guard, otherwise
    \<open>g_Bt[m1]\<close> and \<open>g_Bt[m0]\<close> of the cross product, \<open>g_Bt[m0]\<close> of the norm,
    \<open>g_W[omega_index]\<close> of the scaling, the filter on \<open>g_W\<close>;
  \<^item> \<open>svec_reads\<close>, \<^verbatim>\<open>getSVec\<close>: \<open>g_S[sol_index]\<close> for the norm and, when the norm is
    not below the threshold (\<open>g_night\<close> is then 0), again to normalise;
  \<^item> \<open>check_reads\<close>, the chain of \<open>isnan\<close> tests, which stops at the first NaN.

  \<open>cycle_reads\<close> follows \<open>readSensors\<close> and collects them; \<open>stage_reads\<close> is the
  same without the reads of the final chain of tests.
\<close>

datatype buf = BufB | BufBt | BufW | BufS

fun data_reads :: "access list \<Rightarrow> int list" where
  "data_reads [] = []"
| "data_reads (Data i # tr) = i # data_reads tr"
| "data_reads (Coeff k # tr) = data_reads tr"

definition walk_reads :: "farray \<Rightarrow> int \<Rightarrow> int list" where
  "walk_reads coeff index =
     data_reads (snd (bessel_walk coeff (\<lambda>_. Fin 0) index index 0 (Fin 0) (Fin 0) []))"

definition apply_reads :: "buf \<Rightarrow> farray \<Rightarrow> int \<Rightarrow> (buf \<times> int) list" where
  "apply_reads b coeff index =
     map (Pair b) (walk_reads coeff index @ walk_reads coeff index @ walk_reads coeff index)"

definition field_reads :: "acs \<Rightarrow> (buf \<times> int) list" where
  "field_reads st = apply_reads BufB (bessel_coeff st) (mag_index st)"

definition bdot_reads :: "acs \<Rightarrow> (buf \<times> int) list" where
  "bdot_reads st =
     (let m1 = int8_t (mag_index st);
          m0 = int8_t (if mag_index st - 1 < 0 then SH_BUFFER_SIZE - mag_index st - 1
                       else mag_index st - 1)
      in [(BufB, m1), (BufB, m0), (BufBt, bdot_index st)]
         @ apply_reads BufBt (bessel_coeff st) (bdot_index st))"

definition omega_reads :: "acs \<Rightarrow> (buf \<times> int) list" where
  "omega_reads st =
     (if mag_index st < 2 \<and> B_full st = 0 then []
      else
        let m1 = int8_t (bdot_index st);
            m0 = int8_t (if bdot_index st - 1 < 0 then SH_BUFFER_SIZE - bdot_index st - 1
                         else bdot_index st - 1)
        in [(BufBt, m1), (BufBt, m0), (BufBt, m0), (BufW, omega_index st)]
           @ apply_reads BufW (bessel_coeff st) (omega_index st))"

definition svec_reads :: "acs \<Rightarrow> (buf \<times> int) list" where
  "svec_reads st =
     (if g_night st = 1 then [(BufS, sol_index st)]
      else [(BufS, sol_index st), (BufS, sol_index st)])"

definition check_reads :: "acs \<Rightarrow> (buf \<times> int) list" where
  "check_reads st =
     (if has_nan (slot (g_B st) (mag_index st)) then [(BufB, mag_index st)]
      else if has_nan (slot (g_W st) (omega_index st))
      then [(BufB, mag_index st), (BufW, omega_index st)]
      else [(BufB, mag_index st), (BufW, omega_index st), (BufS, sol_index st)])"

definition cycle_reads :: "(fp \<Rightarrow> fp) \<Rightarrow> sample \<Rightarrow> acs \<Rightarrow> (buf \<times> int) list" where
  "cycle_reads q2isqrt s st =
     (let st = read_field q2isqrt s st;
          reads = field_reads st
      in if mag_index st < 1 \<and> B_full st = 0 then reads
         else
           let st = read_bdot st;
               reads = reads @ bdot_reads st;
               st = getOmega st;
               reads = reads @ omega_reads st;
               st = getSVec q2isqrt st;
               reads = reads @ svec_reads st
           in reads @ check_reads st)"


section \<open>The filter walk\<close>

declare bessel_walk.simps [simp del]

lemma prev_mod:
  fixes index k :: int
  assumes "0 \<le> index" "index < 64" "0 \<le> k" "i = (index - k) mod 64"
  shows "(if i - 1 < 0 then 64 - 1 else i - 1) = (index - (k + 1)) mod 64"
proof -
  have b: "0 \<le> i" "i < 64" using assms by auto
  have e: "(index - (k + 1)) mod 64 = (i - 1) mod 64"
    using assms(4) by (metis diff_diff_eq mod_diff_left_eq)
  show ?thesis
  proof (cases "i = 0")
    case True
    then show ?thesis using e by simp
  next
    case False
    then have "(i - 1) mod 64 = i - 1" using b by (intro mod_pos_pos_trivial) auto
    then show ?thesis using e b False by simp
  qed
qed

lemma walk_back:
  "prev_slot i = index \<Longrightarrow>
   bessel_walk c arr index i k v s tr =
     ((fadd v (fmul (c k) (arr i)), fadd s (c k), k + 1), tr @ [Coeff k, Data i, Coeff k])"
  by (subst bessel_walk.simps) (simp add: Let_def prev_slot_def)

lemma walk_stop:
  "prev_slot i \<noteq> index \<Longrightarrow> flt (c (k + 1)) BESSEL_MIN_THRESHOLD \<or> k + 1 > SH_BUFFER_SIZE \<Longrightarrow>
   bessel_walk c arr index i k v s tr =
     ((fadd v (fmul (c k) (arr i)), fadd s (c k), k + 1),
      tr @ [Coeff k, Data i, Coeff k, Coeff (k + 1)])"
  by (subst bessel_walk.simps) (simp add: Let_def prev_slot_def)

lemma walk_more:
  "prev_slot i \<noteq> index \<Longrightarrow> \<not> flt (c (k + 1)) BESSEL_MIN_THRESHOLD \<Longrightarrow> k + 1 \<le> SH_BUFFER_SIZE \<Longrightarrow>
   bessel_walk c arr index i k v s tr =
     bessel_walk c arr index (prev_slot i) (k + 1) (fadd v (fmul (c k) (arr i))) (fadd s (c k))
       (tr @ [Coeff k, Data i, Coeff k, Coeff (k + 1)])"
  by (subst bessel_walk.simps) (simp add: Let_def prev_slot_def)

lemma prev_slot_mod:
  "0 \<le> index \<Longrightarrow> index < 64 \<Longrightarrow> 0 \<le> k \<Longrightarrow> i = (index - k) mod 64 \<Longrightarrow>
   prev_slot i = (index - (k + 1)) mod 64"
  unfolding prev_slot_def SH_BUFFER_SIZE_def by (rule prev_mod)

lemma walk_inv:
  "0 \<le> index \<Longrightarrow> index < 64 \<Longrightarrow> 0 \<le> k \<Longrightarrow> k < 64 \<Longrightarrow> i = (index - k) mod 64 \<Longrightarrow>
   list_all access_ok tr \<Longrightarrow>
   (case bessel_walk c arr index i k v s tr of
      ((v', s', k'), tr') \<Rightarrow> k < k' \<and> k' \<le> 64 \<and> list_all access_ok tr')"
proof (induction c arr index i k v s tr rule: bessel_walk.induct)
  case (1 c arr index i k v s tr)
  have i2: "prev_slot i = (index - (k + 1)) mod 64"
    using "1.prems" by (intro prev_slot_mod) auto
  have ib: "0 \<le> i" "i < 64" using "1.prems" by auto
  have trok: "list_all access_ok (tr @ [Coeff k, Data i, Coeff k])"
    using "1.prems"(3,4,6) ib by (simp add: SH_BUFFER_SIZE_def)
  show ?case
  proof (cases "prev_slot i = index")
    case True
    show ?thesis unfolding walk_back[OF True] using "1.prems"(4) trok by simp
  next
    case False
    have k1: "k + 1 < 64"
    proof (rule ccontr)
      assume "\<not> k + 1 < 64"
      then have "k + 1 = 64" using "1.prems" by simp
      then have "prev_slot i = index" using i2 "1.prems" by simp
      then show False using False by simp
    qed
    have trok2: "list_all access_ok (tr @ [Coeff k, Data i, Coeff k, Coeff (k + 1)])"
      using trok k1 "1.prems"(3) by (simp add: SH_BUFFER_SIZE_def)
    show ?thesis
    proof (cases "flt (c (k + 1)) BESSEL_MIN_THRESHOLD")
      case True
      then have st: "flt (c (k + 1)) BESSEL_MIN_THRESHOLD \<or> k + 1 > SH_BUFFER_SIZE" by simp
      show ?thesis unfolding walk_stop[where c=c and k=k, OF False st] using k1 trok2 by simp
    next
      case nx: False
      have kk: "k + 1 \<le> SH_BUFFER_SIZE" using k1 by (simp add: SH_BUFFER_SIZE_def)
      have "case bessel_walk c arr index (prev_slot i) (k + 1) (fadd v (fmul (c k) (arr i))) (fadd s (c k))
              ((tr @ [Coeff k, Data i, Coeff k]) @ [Coeff (k + 1)]) of
              ((v', s', k'), tr') \<Rightarrow> k + 1 < k' \<and> k' \<le> 64 \<and> list_all access_ok tr'"
        unfolding prev_slot_def
      proof (rule "1.IH"[OF refl refl refl refl refl refl])
        show "(if i - 1 < 0 then SH_BUFFER_SIZE - 1 else i - 1) \<noteq> index"
          using False by (simp add: prev_slot_def)
        show "\<not> (flt (c (k + 1)) BESSEL_MIN_THRESHOLD \<or> SH_BUFFER_SIZE < k + 1)"
          using nx kk by simp
        show "(if i - 1 < 0 then SH_BUFFER_SIZE - 1 else i - 1) = (index - (k + 1)) mod 64"
          using i2 by (simp add: prev_slot_def)
        show "list_all access_ok ((tr @ [Coeff k, Data i, Coeff k]) @ [Coeff (k + 1)])"
          using trok2 by simp
      qed (use "1.prems" k1 in simp_all)
      then show ?thesis unfolding walk_more[where c=c and k=k, OF False nx kk]
        by (auto split: prod.splits)
    qed
  qed
qed

text \<open>
  C10. Started at an index of the buffer, the loop of \<^verbatim>\<open>dfilterBessel\<close> and of
  \<^verbatim>\<open>ffilterBessel\<close> ends after at least one and at most 64 passes (the final
  \<open>coeff_index\<close> counts them), whatever the coefficients and the data are, and every
  access to the coefficient array and to the data array is at an index in \<open>0 .. 63\<close>:
  the coefficient at position 64 is never read. The value returned is the quotient of
  the two sums of that walk.
\<close>

theorem filter_walk_bounded:
  "0 \<le> index \<Longrightarrow> index < SH_BUFFER_SIZE \<Longrightarrow>
   (case bessel_walk coeff arr index index 0 (Fin 0) (Fin 0) [] of
      ((val, coeff_sum, passes), accesses) \<Rightarrow>
        0 < passes \<and> passes \<le> 64 \<and> list_all access_ok accesses \<and>
        Coeff 64 \<notin> set accesses \<and>
        dfilterBessel coeff arr index = fdiv val coeff_sum \<and>
        ffilterBessel coeff arr index = fdiv val coeff_sum)"
proof -
  assume a: "0 \<le> index" "index < SH_BUFFER_SIZE"
  obtain val coeff_sum passes accesses where
    w: "bessel_walk coeff arr index index 0 (Fin 0) (Fin 0) [] = ((val, coeff_sum, passes), accesses)"
    by (metis prod_cases3 surj_pair)
  have "case bessel_walk coeff arr index index 0 (Fin 0) (Fin 0) [] of
          ((v', s', k'), tr') \<Rightarrow> 0 < k' \<and> k' \<le> 64 \<and> list_all access_ok tr'"
    using a by (intro walk_inv) (simp_all add: SH_BUFFER_SIZE_def)
  then have b: "0 < passes" "passes \<le> 64" "list_all access_ok accesses"
    by (simp_all add: w)
  have "Coeff 64 \<notin> set accesses"
  proof
    assume "Coeff 64 \<in> set accesses"
    then have "access_ok (Coeff 64)" using b(3) unfolding list_all_iff by blast
    then show False by (simp add: SH_BUFFER_SIZE_def)
  qed
  then show ?thesis using b by (simp add: w dfilterBessel_def ffilterBessel_def)
qed

theorem filter_walk_bounded_witness:
  "0 \<le> (5 :: int) \<and> 5 < SH_BUFFER_SIZE \<and>
   (case bessel_walk (\<lambda>_. Fin 1) (\<lambda>_. Fin 2) 5 5 0 (Fin 0) (Fin 0) [] of
      ((val, coeff_sum, passes), accesses) \<Rightarrow>
        0 < passes \<and> passes \<le> 64 \<and> list_all access_ok accesses \<and>
        Coeff 64 \<notin> set accesses \<and>
        dfilterBessel (\<lambda>_. Fin 1) (\<lambda>_. Fin 2) 5 = fdiv val coeff_sum \<and>
        ffilterBessel (\<lambda>_. Fin 1) (\<lambda>_. Fin 2) 5 = fdiv val coeff_sum)"
  using filter_walk_bounded [of 5 "\<lambda>_. Fin 1" "\<lambda>_. Fin 2"]
  by (simp add: SH_BUFFER_SIZE_def)

section \<open>What one cycle does to the cursors and flags\<close>

lemma smod_nonneg: "0 \<le> a \<Longrightarrow> a smod 64 = a mod (64 :: int)"
  by (cases "a = 0") (simp_all add: signed_modulo_int_def)

lemma advance_cursor:
  "- 1 \<le> idx \<Longrightarrow> idx \<le> 63 \<Longrightarrow>
   (idx + 1) smod SH_BUFFER_SIZE = (if idx = 63 then 0 else idx + 1)"
  "- 1 \<le> idx \<Longrightarrow> idx \<le> 63 \<Longrightarrow>
   (1 + idx) smod SH_BUFFER_SIZE = (if idx = 63 then 0 else idx + 1)"
  "- 1 \<le> idx \<Longrightarrow> idx \<le> 63 \<Longrightarrow> (idx + 1) smod 64 = (if idx = 63 then 0 else idx + 1)"
  "- 1 \<le> idx \<Longrightarrow> idx \<le> 63 \<Longrightarrow> (1 + idx) smod 64 = (if idx = 63 then 0 else idx + 1)"
  by (simp_all add: SH_BUFFER_SIZE_def smod_nonneg)

lemma read_field_proj:
  "mag_index (read_field q s st) = (mag_index st + 1) smod SH_BUFFER_SIZE"
  "B_full (read_field q s st) = (if mag_index st = SH_BUFFER_SIZE - 1 then 1 else B_full st)"
  "bdot_index (read_field q s st) = bdot_index st"
  "omega_index (read_field q s st) = omega_index st"
  "sol_index (read_field q s st) = sol_index st"
  "Bdot_full (read_field q s st) = Bdot_full st"
  "W_full (read_field q s st) = W_full st"
  "S_full (read_field q s st) = S_full st"
  "g_W (read_field q s st) = g_W st"
  "g_Bt (read_field q s st) = g_Bt st"
  "g_S (read_field q s st) = g_S st"
  "g_night (read_field q s st) = g_night st"
  "bessel_coeff (read_field q s st) = bessel_coeff st"
  "g_CSS (read_field q s st) = read_css s (g_CSS st)"
  "acs_ct (read_field q s st) = acs_ct st + 1"
  "g_B (read_field q s st) =
     APPLY_DBESSEL (bessel_coeff st)
       (slot_upd (VECTOR_CLEAR (g_B st) ((mag_index st + 1) smod SH_BUFFER_SIZE))
          ((mag_index st + 1) smod SH_BUFFER_SIZE) (mag_measure s))
       ((mag_index st + 1) smod SH_BUFFER_SIZE)"
  by (simp_all add: read_field_def Let_def)

lemma read_bdot_proj:
  "mag_index (read_bdot st) = mag_index st"
  "B_full (read_bdot st) = (if bdot_index st = SH_BUFFER_SIZE - 1 then 1 else B_full st)"
  "bdot_index (read_bdot st) = (bdot_index st + 1) smod SH_BUFFER_SIZE"
  "omega_index (read_bdot st) = omega_index st"
  "sol_index (read_bdot st) = sol_index st"
  "Bdot_full (read_bdot st) = Bdot_full st"
  "W_full (read_bdot st) = W_full st"
  "S_full (read_bdot st) = S_full st"
  "g_W (read_bdot st) = g_W st"
  "g_B (read_bdot st) = g_B st"
  "g_S (read_bdot st) = g_S st"
  "g_night (read_bdot st) = g_night st"
  "bessel_coeff (read_bdot st) = bessel_coeff st"
  "g_CSS (read_bdot st) = g_CSS st"
  "acs_ct (read_bdot st) = acs_ct st"
  by (simp_all add: read_bdot_def Let_def)

lemma getOmega_proj:
  "mag_index (getOmega st) = mag_index st"
  "B_full (getOmega st) = B_full st"
  "bdot_index (getOmega st) = bdot_index st"
  "omega_index (getOmega st) =
     (if mag_index st < 2 \<and> B_full st = 0 then omega_index st
      else (1 + omega_index st) smod SH_BUFFER_SIZE)"
  "sol_index (getOmega st) = sol_index st"
  "Bdot_full (getOmega st) = Bdot_full st"
  "W_full (getOmega st) =
     (if mag_index st < 2 \<and> B_full st = 0 then W_full st
      else if omega_index st = SH_BUFFER_SIZE - 1 then 1 else W_full st)"
  "S_full (getOmega st) = S_full st"
  "g_Bt (getOmega st) = g_Bt st"
  "g_B (getOmega st) = g_B st"
  "g_S (getOmega st) = g_S st"
  "g_night (getOmega st) = g_night st"
  "bessel_coeff (getOmega st) = bessel_coeff st"
  "g_CSS (getOmega st) = g_CSS st"
  "acs_ct (getOmega st) = acs_ct st"
  by (simp_all add: getOmega_def Let_def)

lemma getOmega_skip:
  "mag_index st < 2 \<and> B_full st = 0 \<Longrightarrow> getOmega st = st"
  by (simp add: getOmega_def)

lemma getSVec_proj:
  "mag_index (getSVec q st) = mag_index st"
  "B_full (getSVec q st) = B_full st"
  "bdot_index (getSVec q st) = bdot_index st"
  "omega_index (getSVec q st) = omega_index st"
  "sol_index (getSVec q st) = (sol_index st + 1) smod SH_BUFFER_SIZE"
  "Bdot_full (getSVec q st) = Bdot_full st"
  "W_full (getSVec q st) = W_full st"
  "S_full (getSVec q st) = (if sol_index st = SH_BUFFER_SIZE - 1 then 1 else S_full st)"
  "g_Bt (getSVec q st) = g_Bt st"
  "g_B (getSVec q st) = g_B st"
  "g_W (getSVec q st) = g_W st"
  "bessel_coeff (getSVec q st) = bessel_coeff st"
  "g_CSS (getSVec q st) = g_CSS st"
  "acs_ct (getSVec q st) = acs_ct st"
  by (simp_all add: getSVec_def Let_def)

lemma readSensors_early:
  "mag_index (read_field q s st) < 1 \<and> B_full (read_field q s st) = 0 \<Longrightarrow>
   readSensors q s st = (1, read_field q s st)"
  by (simp add: readSensors_def Let_def)

lemma readSensors_full:
  "\<not> (mag_index (read_field q s st) < 1 \<and> B_full (read_field q s st) = 0) \<Longrightarrow>
   readSensors q s st =
     (nan_check 1 (getSVec q (getOmega (read_bdot (read_field q s st)))),
      getSVec q (getOmega (read_bdot (read_field q s st))))"
  by (auto simp add: readSensors_def Let_def)

lemma mod64_step:
  fixes m :: int
  shows "m mod 64 = 63 \<Longrightarrow> (m + 1) mod 64 = 0"
    and "m mod 64 \<noteq> 63 \<Longrightarrow> (m + 1) mod 64 = m mod 64 + 1"
proof -
  have e: "(m + 1) mod 64 = (m mod 64 + 1) mod 64" by (simp add: mod_add_left_eq)
  show "m mod 64 = 63 \<Longrightarrow> (m + 1) mod 64 = 0" using e by simp
  assume n: "m mod 64 \<noteq> 63"
  have "0 \<le> m mod 64" "m mod 64 < 64" by simp_all
  then have "0 \<le> m mod 64 + 1" "m mod 64 + 1 < 64" using n by linarith+
  then have "(m mod 64 + 1) mod 64 = m mod 64 + 1" by (rule mod_pos_pos_trivial)
  then show "(m + 1) mod 64 = m mod 64 + 1" using e by simp
qed

lemma cur_bounds: "- 1 \<le> cur k n" "cur k n \<le> 63"
proof -
  have "0 \<le> (n - k) mod 64" "(n - k) mod 64 < 64" by simp_all
  then have "- 1 \<le> (n - k) mod 64" "(n - k) mod 64 \<le> 63" by linarith+
  then show "- 1 \<le> cur k n" "cur k n \<le> 63" unfolding cur_def by (cases "n < k"; simp)+
qed

lemma cur_step:
  assumes "k \<le> n + 1"
  shows "(if cur k n = 63 then 0 else cur k n + 1) = cur k (n + 1)"
proof (cases "n < k")
  case True
  then have "n + 1 = k" using assms by simp
  then show ?thesis using True by (simp add: cur_def)
next
  case False
  have e: "n + 1 - k = (n - k) + 1" by simp
  have c: "cur k n = (n - k) mod 64" "cur k (n + 1) = ((n - k) + 1) mod 64"
    using False by (simp_all add: cur_def e)
  show ?thesis
  proof (cases "(n - k) mod 64 = 63")
    case True
    then show ?thesis unfolding c using mod64_step(1)[OF True] by simp
  next
    case False
    then show ?thesis unfolding c using mod64_step(2)[OF False] by simp
  qed
qed

lemma cur_stay: "n + 1 < k \<Longrightarrow> cur k (n + 1) = cur k n"
  by (simp add: cur_def)

lemma cur_63:
  assumes "cur k n = 63"
  shows "k + 63 \<le> n"
proof -
  have nk: "\<not> n < k" "(n - k) mod 64 = 63" using assms by (auto simp: cur_def split: if_splits)
  have "(n - k) mod 64 \<le> n - k" using nk(1) by (intro zmod_le_nonneg_dividend) simp
  then show ?thesis using nk(2) by simp
qed

lemma cur_first: "cur k k = 0" "n < k \<Longrightarrow> cur k n = - 1"
  by (simp_all add: cur_def)

lemma cur_small:
  assumes "k \<le> n" "n < k + 64"
  shows "cur k n = n - k"
proof -
  have "(n - k) mod 64 = n - k" using assms by (intro mod_pos_pos_trivial) simp_all
  then show ?thesis using assms by (simp add: cur_def)
qed

lemma full_step:
  assumes "k \<le> n + 1"
  shows "(if cur k n = 63 then 1 else full_after k n) = full_after k (n + 1)"
proof (cases "cur k n = 63")
  case True
  then show ?thesis using cur_63[OF True] by (simp add: full_after_def)
next
  case False
  have "n \<noteq> k + 63"
  proof
    assume "n = k + 63"
    then have "cur k n = 63" using cur_small[of k n] by simp
    then show False using False by simp
  qed
  then show ?thesis using False by (simp add: full_after_def)
qed

lemma cursors_bounds:
  assumes "cursors_at n st"
  shows "- 1 \<le> mag_index st" "mag_index st \<le> 63" "- 1 \<le> bdot_index st" "bdot_index st \<le> 63"
    "- 1 \<le> sol_index st" "sol_index st \<le> 63" "- 1 \<le> omega_index st" "omega_index st \<le> 63"
  using assms cur_bounds by (simp_all add: cursors_at_def)

lemma field_cursors:
  assumes "0 \<le> n" "cursors_at n st"
  shows "mag_index (read_field q s st) = cur 1 (n + 1)"
    and "B_full (read_field q s st) = full_after 1 (n + 1)"
proof -
  have m: "mag_index st = cur 1 n" "B_full st = full_after 1 n"
    using assms(2) by (simp_all add: cursors_at_def)
  have k: "(1::int) \<le> n + 1" using assms(1) by simp
  show "mag_index (read_field q s st) = cur 1 (n + 1)"
    using cur_step[OF k] cur_bounds[of 1 n]
    by (simp add: read_field_proj m advance_cursor)
  show "B_full (read_field q s st) = full_after 1 (n + 1)"
    by (simp add: read_field_proj m SH_BUFFER_SIZE_def full_step[OF k, symmetric])
qed

lemma early_iff:
  assumes "0 \<le> n"
  shows "(cur 1 (n + 1) < 1 \<and> full_after 1 (n + 1) = 0) \<longleftrightarrow> n = 0"
proof
  assume a: "cur 1 (n + 1) < 1 \<and> full_after 1 (n + 1) = 0"
  then have "n + 1 < 65" by (simp add: full_after_def split: if_splits)
  then have "cur 1 (n + 1) = n" using assms cur_small[of 1 "n + 1"] by simp
  then show "n = 0" using a assms by simp
next
  assume "n = 0"
  then show "cur 1 (n + 1) < 1 \<and> full_after 1 (n + 1) = 0"
    by (simp add: cur_def full_after_def)
qed

lemma omega_skip_iff:
  assumes "1 \<le> n"
  shows "(cur 1 (n + 1) < 2 \<and> full_after 1 (n + 1) = 0) \<longleftrightarrow> n = 1"
proof
  assume a: "cur 1 (n + 1) < 2 \<and> full_after 1 (n + 1) = 0"
  then have "n + 1 < 65" by (simp add: full_after_def split: if_splits)
  then have "cur 1 (n + 1) = n" using assms cur_small[of 1 "n + 1"] by simp
  then show "n = 1" using a assms by simp
next
  assume "n = 1"
  then show "cur 1 (n + 1) < 2 \<and> full_after 1 (n + 1) = 0"
    by (simp add: cur_def full_after_def)
qed

lemma readSensors_cursors:
  assumes "0 \<le> n" "cursors_at n st"
  shows "cursors_at (n + 1) (snd (readSensors q s st))"
proof -
  note c = assms(2)[unfolded cursors_at_def]
  note f = field_cursors[OF assms, of q s]
  show ?thesis
  proof (cases "n = 0")
    case True
    have e: "mag_index (read_field q s st) < 1 \<and> B_full (read_field q s st) = 0"
      unfolding f using early_iff[OF assms(1)] True by simp
    show ?thesis unfolding readSensors_early[OF e]
      using c f True by (simp add: cursors_at_def read_field_proj cur_def full_after_def)
  next
    case False
    then have n1: "1 \<le> n" using assms(1) by simp
    have e: "\<not> (mag_index (read_field q s st) < 1 \<and> B_full (read_field q s st) = 0)"
      unfolding f using early_iff[OF assms(1)] False by simp
    let ?b = "read_bdot (read_field q s st)"
    have k2: "(2::int) \<le> n + 1" using n1 by simp
    have b1: "bdot_index ?b = cur 2 (n + 1)"
      using cur_step[OF k2] cur_bounds[of 2 n] c
      by (simp add: read_bdot_proj read_field_proj advance_cursor)
    have b2: "B_full ?b = full_after 1 (n + 1)"
    proof (cases "cur 2 n = 63")
      case True
      then have "full_after 1 (n + 1) = 1" using cur_63[OF True] by (simp add: full_after_def)
      then show ?thesis using True c by (simp add: read_bdot_proj read_field_proj SH_BUFFER_SIZE_def)
    next
      case False
      then show ?thesis using c f by (simp add: read_bdot_proj read_field_proj SH_BUFFER_SIZE_def)
    qed
    have b3: "mag_index ?b = cur 1 (n + 1)" using f by (simp add: read_bdot_proj)
    have s1: "sol_index (getSVec q (getOmega ?b)) = cur 2 (n + 1)"
      using cur_step[OF k2] cur_bounds[of 2 n] c
      by (simp add: getSVec_proj getOmega_proj read_bdot_proj read_field_proj advance_cursor)
    have s2: "S_full (getSVec q (getOmega ?b)) = full_after 2 (n + 1)"
      using c
      by (simp add: getSVec_proj getOmega_proj read_bdot_proj read_field_proj SH_BUFFER_SIZE_def
            full_step[OF k2, symmetric])
    have o: "omega_index (getOmega ?b) = cur 3 (n + 1) \<and> W_full (getOmega ?b) = full_after 3 (n + 1)"
    proof (cases "n = 1")
      case True
      have sk: "mag_index ?b < 2 \<and> B_full ?b = 0"
        unfolding b2 b3 using omega_skip_iff[OF n1] True by simp
      show ?thesis using sk c True
        by (simp add: getOmega_skip read_bdot_proj read_field_proj cur_def full_after_def)
    next
      case False
      have sk: "\<not> (mag_index ?b < 2 \<and> B_full ?b = 0)"
        unfolding b2 b3 using omega_skip_iff[OF n1] False by simp
      have k3: "(3::int) \<le> n + 1" using n1 False by simp
      have go: "omega_index (getOmega ?b) = (1 + omega_index ?b) smod SH_BUFFER_SIZE"
        "W_full (getOmega ?b) = (if omega_index ?b = SH_BUFFER_SIZE - 1 then 1 else W_full ?b)"
        using sk by (auto simp add: getOmega_proj)
      have ob: "omega_index ?b = cur 3 n" "W_full ?b = full_after 3 n"
        using c by (simp_all add: read_bdot_proj read_field_proj)
      show ?thesis unfolding go ob
        using cur_step[OF k3] cur_bounds[of 3 n]
        by (simp add: advance_cursor SH_BUFFER_SIZE_def full_step[OF k3, symmetric])
    qed
    show ?thesis unfolding readSensors_full[OF e]
      using b1 b2 b3 s1 s2 o c
      by (simp add: cursors_at_def getSVec_proj getOmega_proj read_bdot_proj read_field_proj)
  qed
qed

lemma init_cursors: "cursors_at 0 (init_acs stray coeffs)"
  by (simp add: cursors_at_def init_acs_def cur_def full_after_def)

lemma run_snoc:
  "run q (ss @ [s]) st =
     (fst (run q ss st) @ [fst (readSensors q s (snd (run q ss st)))],
      snd (readSensors q s (snd (run q ss st))))"
  by (induction ss arbitrary: st) (auto split: prod.splits)

lemma run_cursors: "cursors_at (int (length ss)) (snd (run q ss (init_acs stray coeffs)))"
proof (induction ss rule: rev_induct)
  case Nil
  show ?case by (simp add: init_cursors)
next
  case (snoc s ss)
  have "cursors_at (int (length ss) + 1) (snd (readSensors q s (snd (run q ss (init_acs stray coeffs)))))"
    by (rule readSensors_cursors[OF _ snoc.IH]) simp
  then show ?case by (simp add: run_snoc add.commute)
qed

text \<open>
  C1, as the code has it. After any number of consecutive cycles from program start the
  field buffer has been written once per cycle, the sun-vector buffer once per cycle
  from the second cycle on, the angular-velocity buffer once per cycle from the third
  on. The flag of each of the three is set exactly when the buffer has been written
  more than 64 times: it is raised by the write that wraps the cursor from 63 to 0,
  the 65th, and stays raised. The cursor is the number of writes minus one, modulo 64.
  (The flag of the field-rate buffer is not part of this statement.)
\<close>

theorem full_flags_after_cycles:
  "B_full (snd (run q ss (init_acs stray coeffs))) = (if 64 < int (length ss) then 1 else 0) \<and>
   S_full (snd (run q ss (init_acs stray coeffs))) = (if 64 < int (length ss) - 1 then 1 else 0) \<and>
   W_full (snd (run q ss (init_acs stray coeffs))) = (if 64 < int (length ss) - 2 then 1 else 0) \<and>
   mag_index (snd (run q ss (init_acs stray coeffs))) = cur 1 (int (length ss)) \<and>
   sol_index (snd (run q ss (init_acs stray coeffs))) = cur 2 (int (length ss)) \<and>
   omega_index (snd (run q ss (init_acs stray coeffs))) = cur 3 (int (length ss))"
  using run_cursors[of ss q stray coeffs]
  by (simp add: cursors_at_def full_after_def)

text \<open>
  After 65 cycles the field buffer has wrapped and its flag is set; the sun-vector and
  angular-velocity buffers, written 64 and 63 times, are not yet flagged.
\<close>

theorem full_flags_after_cycles_witness:
  "B_full (snd (run q2isqrt_sqrt (replicate 65 sample_dark) (init_acs no_stray main_kernel))) = 1 \<and>
   S_full (snd (run q2isqrt_sqrt (replicate 65 sample_dark) (init_acs no_stray main_kernel))) = 0 \<and>
   W_full (snd (run q2isqrt_sqrt (replicate 65 sample_dark) (init_acs no_stray main_kernel))) = 0 \<and>
   mag_index (snd (run q2isqrt_sqrt (replicate 65 sample_dark) (init_acs no_stray main_kernel))) = 0"
  using full_flags_after_cycles[of q2isqrt_sqrt "replicate 65 sample_dark" no_stray main_kernel]
  by (simp add: cur_def)

text \<open>
  C1 as stated fails: after exactly 64 writes of the field buffer the cursor is at 63
  and the flag is still clear.
\<close>

theorem full_flag_after_64_writes:
  "B_full (snd (run q2isqrt_sqrt (replicate 64 sample_dark) (init_acs no_stray main_kernel))) = 0 \<and>
   mag_index (snd (run q2isqrt_sqrt (replicate 64 sample_dark) (init_acs no_stray main_kernel))) = 63"
  using run_cursors[of "replicate 64 sample_dark" q2isqrt_sqrt no_stray main_kernel]
  by (simp add: cursors_at_def full_after_def cur_def)

text \<open>
  The field-rate buffer: \<^verbatim>\<open>readSensors\<close> sets \<open>B_full\<close> where the field-rate cursor
  wraps, so \<open>Bdot_full\<close> keeps its initial value for ever.
\<close>

lemma bdot_full_never_set:
  "Bdot_full (snd (run q ss (init_acs stray coeffs))) = 0"
  using run_cursors[of ss q stray coeffs] by (simp add: cursors_at_def)

lemma first_cycle:
  "readSensors q s (init_acs stray coeffs) = (1, read_field q s (init_acs stray coeffs))"
proof (rule readSensors_early)
  have c: "cursors_at 0 (init_acs stray coeffs)" by (rule init_cursors)
  show "mag_index (read_field q s (init_acs stray coeffs)) < 1 \<and>
        B_full (read_field q s (init_acs stray coeffs)) = 0"
    using field_cursors[OF _ c, of q s] by (simp add: cur_def full_after_def)
qed

lemma second_cycle:
  assumes "cursors_at 1 st"
  shows "snd (readSensors q s st) = getSVec q (read_bdot (read_field q s st))"
proof -
  have f: "mag_index (read_field q s st) = 1" "B_full (read_field q s st) = 0"
    using field_cursors[OF _ assms, of q s] by (simp_all add: cur_def full_after_def)
  have e: "\<not> (mag_index (read_field q s st) < 1 \<and> B_full (read_field q s st) = 0)"
    using f by simp
  have b: "B_full (read_bdot (read_field q s st)) = 0"
    using f assms by (simp add: read_bdot_proj read_field_proj cursors_at_def cur_def SH_BUFFER_SIZE_def)
  have "getOmega (read_bdot (read_field q s st)) = read_bdot (read_field q s st)"
    using f b by (intro getOmega_skip) (simp add: read_bdot_proj)
  then show ?thesis by (simp add: readSensors_full[OF e])
qed

lemma getSVec_sun:
  "g_S (getSVec q st) =
     (let i = (sol_index st + 1) smod SH_BUFFER_SIZE;
          znavg = fmul (fadd (fadd (Fin 0) (g_CSS st 5)) (g_CSS st 6)) (Fin (1 / 2));
          b = slot_upd (g_S st) i
                (fsub (g_CSS st 0) (g_CSS st 1), fsub (g_CSS st 2) (g_CSS st 3),
                 fsub (g_CSS st 4) znavg)
      in if flt (NORM (slot b i)) CSS_MIN_LUX_THRESHOLD then VECTOR_CLEAR b i
         else slot_upd b i (NORMALIZE q (slot b i) (slot b i)))"
  "g_night (getSVec q st) =
     (let i = (sol_index st + 1) smod SH_BUFFER_SIZE;
          znavg = fmul (fadd (fadd (Fin 0) (g_CSS st 5)) (g_CSS st 6)) (Fin (1 / 2));
          b = slot_upd (g_S st) i
                (fsub (g_CSS st 0) (g_CSS st 1), fsub (g_CSS st 2) (g_CSS st 3),
                 fsub (g_CSS st 4) znavg)
      in if flt (NORM (slot b i)) CSS_MIN_LUX_THRESHOLD then 1 else 0)"
  by (simp_all add: getSVec_def Let_def)

lemma sqrt_million: "sqrt 1000000 = 1000"
  by (rule real_sqrt_unique) simp_all

lemma slot_slot_upd: "slot (slot_upd b i v) i = v"
  by (cases v) (simp add: slot_def slot_upd_def)

text \<open>
  C5 as stated fails for the sun vector: with an illuminated sample, the second cycle
  already stores a unit sun vector in slot 0 and clears the night flag.
\<close>

theorem sun_vector_in_cycle_two:
  "sol_index (snd (run q2isqrt_sqrt [sample_sun, sample_sun] (init_acs no_stray main_kernel))) = 0 \<and>
   slot (g_S (snd (run q2isqrt_sqrt [sample_sun, sample_sun] (init_acs no_stray main_kernel)))) 0
     = (Fin (3 / 5), Fin (4 / 5), Fin 0) \<and>
   g_night (snd (run q2isqrt_sqrt [sample_sun, sample_sun] (init_acs no_stray main_kernel))) = 0"
proof -
  let ?q = q2isqrt_sqrt
  let ?st0 = "init_acs no_stray main_kernel"
  let ?st1 = "snd (readSensors ?q sample_sun ?st0)"
  let ?b = "read_bdot (read_field ?q sample_sun ?st1)"
  have c1: "cursors_at 1 ?st1" using readSensors_cursors[OF _ init_cursors, of ?q sample_sun] by simp
  have r: "snd (run ?q [sample_sun, sample_sun] ?st0) = getSVec ?q ?b"
    by (simp add: case_prod_beta second_cycle[OF c1])
  have i: "sol_index ?b = - 1"
    using c1 by (simp add: read_bdot_proj read_field_proj cursors_at_def cur_def)
  have "g_S ?st1 = g_S ?st0" by (simp add: first_cycle read_field_proj)
  then have s: "g_S ?b = zero_buffer no_stray"
    by (simp add: read_bdot_proj read_field_proj) (simp add: init_acs_def)
  have c: "g_CSS ?b 0 = Fin 300" "g_CSS ?b 1 = Fin (- 300)" "g_CSS ?b 2 = Fin 400"
    "g_CSS ?b 3 = Fin (- 400)" "g_CSS ?b 4 = Fin 0" "g_CSS ?b 5 = Fin 0" "g_CSS ?b 6 = Fin 0"
    by (simp_all add: read_bdot_proj read_field_proj read_css_def sample_sun_def Let_def)
  have n: "NORM (Fin 600, Fin 800, Fin 0) = Fin 1000"
    by (simp add: NORM_def NORM2_def sqrt_million)
  have z: "NORMALIZE ?q (Fin 600, Fin 800, Fin 0) (Fin 600, Fin 800, Fin 0) = (Fin (3 / 5), Fin (4 / 5), Fin 0)"
    by (simp add: NORMALIZE_def INVNORM_def NORM2_def q2isqrt_sqrt_def sqrt_million fnonzero_def)
  show ?thesis unfolding r
    by (simp add: getSVec_proj getSVec_sun i s c SH_BUFFER_SIZE_def fsub_def slot_slot_upd n z
          CSS_MIN_LUX_THRESHOLD_def Let_def)
qed

lemma int8_small: "- 128 \<le> k \<Longrightarrow> k < 128 \<Longrightarrow> int8_t k = k"
  unfolding int8_t_def sint_sbintrunc' by (simp add: signed_take_bit_int_eq_self)

lemma prev_slot_neq: "prev_slot i \<noteq> i"
  by (simp add: prev_slot_def SH_BUFFER_SIZE_def)

lemma unit_gain: "fdiv (fadd (Fin 0) (fmul (Fin 1) x)) (Fin 1) = x"
  by (cases x) simp_all

lemma identity_filter:
  assumes "c 0 = Fin 1" "c 1 = Fin 0"
  shows "dfilterBessel c arr index = arr index" "ffilterBessel c arr index = arr index"
proof -
  have st: "flt (c (0 + 1)) BESSEL_MIN_THRESHOLD \<or> 0 + 1 > SH_BUFFER_SIZE"
    using assms by (simp add: BESSEL_MIN_THRESHOLD_def)
  note w = walk_stop[where c=c and k=0 and i=index and index=index, OF prev_slot_neq st]
  show "dfilterBessel c arr index = arr index" "ffilterBessel c arr index = arr index"
    by (simp_all add: dfilterBessel_def ffilterBessel_def w assms unit_gain)
qed

lemma apply_identity:
  assumes "c 0 = Fin 1" "c 1 = Fin 0"
  shows "APPLY_FBESSEL c b index = b" "APPLY_DBESSEL c b index = b"
  by (simp_all add: APPLY_FBESSEL_def APPLY_DBESSEL_def Let_def identity_filter[OF assms])

lemma getOmega_slot:
  assumes run: "\<not> (mag_index st < 2 \<and> B_full st = 0)"
    and k: "bessel_coeff st 0 = Fin 1" "bessel_coeff st 1 = Fin 0"
  shows "slot (g_W (getOmega st)) (omega_index (getOmega st)) =
     (let m1 = int8_t (bdot_index st);
          m0 = int8_t (if bdot_index st - 1 < 0 then SH_BUFFER_SIZE - bdot_index st - 1
                       else bdot_index st - 1);
          freq = fdiv (Fin 1000000) (Fin (real_of_int DETUMBLE_TIME_STEP));
          norm2 = NORM2 (slot (g_Bt st) m0)
      in VECTOR_MIXED (\<lambda>c. fdiv (fmul c freq) norm2)
           (CROSS_PRODUCT (slot (g_Bt st) m1) (slot (g_Bt st) m0)))"
  using run by (auto simp add: getOmega_def Let_def apply_identity[OF k] slot_slot_upd)

text \<open>
  C6, as the code has it. With the identity kernel, \<open>g_Bt[t-1] = (0,0,1)\<close> and
  \<open>g_Bt[t] = (1,0,0)\<close>, \<^verbatim>\<open>getOmega\<close> stores \<open>(0,-1,0) * F\<close> in the new slot of
  \<open>g_W\<close>, where \<open>F = 1e6 / DETUMBLE_TIME_STEP\<close>: the cross product of \<open>(1,0,0)\<close>
  and \<open>(0,0,1)\<close> is \<open>(0,-1,0)\<close>.
\<close>

theorem bdot_estimator_sign:
  assumes "\<not> (mag_index st < 2 \<and> B_full st = 0)"
    and "bessel_coeff st = identity_kernel"
    and "0 \<le> bdot_index st" "bdot_index st < SH_BUFFER_SIZE"
    and "slot (g_Bt st) (prev_slot (bdot_index st)) = (Fin 0, Fin 0, Fin 1)"
    and "slot (g_Bt st) (bdot_index st) = (Fin 1, Fin 0, Fin 0)"
  shows "slot (g_W (getOmega st)) (omega_index (getOmega st)) =
           VECTOR_MIXED (\<lambda>c. fmul c (fdiv (Fin 1000000) (Fin (real_of_int DETUMBLE_TIME_STEP))))
             (Fin 0, Fin (- 1), Fin 0)"
proof -
  have k: "bessel_coeff st 0 = Fin 1" "bessel_coeff st 1 = Fin 0"
    using assms(2) by (simp_all add: identity_kernel_def)
  have p: "(if bdot_index st - 1 < 0 then SH_BUFFER_SIZE - bdot_index st - 1 else bdot_index st - 1)
             = prev_slot (bdot_index st)"
    using assms(3) by (auto simp add: prev_slot_def)
  have pb: "0 \<le> prev_slot (bdot_index st)" "prev_slot (bdot_index st) < 64"
    using assms(3,4) by (auto simp add: prev_slot_def SH_BUFFER_SIZE_def)
  have m: "int8_t (bdot_index st) = bdot_index st"
    "int8_t (prev_slot (bdot_index st)) = prev_slot (bdot_index st)"
    using assms(3,4) pb by (simp_all add: int8_small SH_BUFFER_SIZE_def)
  show ?thesis
    unfolding getOmega_slot[OF assms(1) k] p
    by (simp add: Let_def m assms(5,6) CROSS_PRODUCT_def NORM2_def VECTOR_MIXED_def
          fsub_def DETUMBLE_TIME_STEP_def)
qed

text \<open>
  The state with \<open>g_Bt[0] = (0,0,1)\<close>, \<open>g_Bt[1] = (1,0,0)\<close> and the field-rate cursor
  at 1 meets the hypotheses.
\<close>

theorem bdot_estimator_sign_witness:
  "slot (g_W (getOmega bdot_pair_state)) (omega_index (getOmega bdot_pair_state)) =
     VECTOR_MIXED (\<lambda>c. fmul c (fdiv (Fin 1000000) (Fin (real_of_int DETUMBLE_TIME_STEP))))
       (Fin 0, Fin (- 1), Fin 0)"
  by (rule bdot_estimator_sign)
     (simp_all add: bdot_pair_state_def init_acs_def SH_BUFFER_SIZE_def slot_def slot_upd_def
        prev_slot_def)

text \<open>
  C6 as stated fails: in that state the result is \<open>(0,-10,0)\<close>, not \<open>(0,10,0)\<close>
  (\<open>F = 10\<close>).
\<close>

theorem bdot_estimator_not_plus:
  "slot (g_W (getOmega bdot_pair_state)) 0 = (Fin 0, Fin (- 10), Fin 0) \<and>
   omega_index (getOmega bdot_pair_state) = 0 \<and>
   slot (g_W (getOmega bdot_pair_state)) 0 \<noteq> (Fin 0, Fin 10, Fin 0)"
proof -
  have k: "bessel_coeff bdot_pair_state 0 = Fin 1" "bessel_coeff bdot_pair_state 1 = Fin 0"
    by (simp_all add: bdot_pair_state_def init_acs_def identity_kernel_def)
  have r: "\<not> (mag_index bdot_pair_state < 2 \<and> B_full bdot_pair_state = 0)"
    by (simp add: bdot_pair_state_def)
  have o: "omega_index (getOmega bdot_pair_state) = 0"
    using r by (simp add: getOmega_proj bdot_pair_state_def init_acs_def SH_BUFFER_SIZE_def
        signed_modulo_int_def)
  have b: "bdot_index bdot_pair_state = 1" by (simp add: bdot_pair_state_def)
  have g: "slot (g_Bt bdot_pair_state) 1 = (Fin 1, Fin 0, Fin 0)"
    "slot (g_Bt bdot_pair_state) 0 = (Fin 0, Fin 0, Fin 1)"
    by (simp_all add: bdot_pair_state_def slot_def slot_upd_def)
  have "slot (g_W (getOmega bdot_pair_state)) (omega_index (getOmega bdot_pair_state))
          = (Fin 0, Fin (- 10), Fin 0)"
    unfolding getOmega_slot[OF r k]
    by (simp add: Let_def b g int8_small CROSS_PRODUCT_def NORM2_def VECTOR_MIXED_def
        fsub_def DETUMBLE_TIME_STEP_def)
  then show ?thesis using o by simp
qed

text \<open>
  C7 fails where \<^verbatim>\<open>q2isqrt\<close> is the library square root (\<^verbatim>\<open>MATH_SQRT\<close>): the inverse
  norm of the null vector is \<open>1 / sqrt 0 = +\<infinity>\<close>, which passes the test
  \<open>sh__temp != 0\<close>, and each component becomes \<open>0 * \<infinity>\<close>, a NaN.
\<close>

theorem normalize_null_math_sqrt:
  "NORMALIZE q2isqrt_sqrt dest null_vec = (NaN, NaN, NaN)"
  by (simp add: NORMALIZE_def INVNORM_def NORM2_def null_vec_def q2isqrt_sqrt_def fnonzero_def)

lemma float_of_bits_zero: "float_of_bits 0 = Fin 0"
  by (simp add: float_of_bits_def)

lemma q2isqrt_bits_zero: "q2isqrt_bits 0 = Fin (27 * 12016262 * 2 ^ 40 / 8)"
  by (simp add: q2isqrt_bits_def float_of_bits_def newton_round_def fsub_def Let_def)

text \<open>
  With the bit-level \<^verbatim>\<open>q2isqrt\<close> the null vector is normalised to the null vector:
  the pattern of \<open>+0\<close> gives a finite, non-zero estimate. \<open>bits\<close> is the map from a
  number to its binary32 pattern.
\<close>

lemma normalize_null_bit_hack:
  "bits (Fin 0) = 0 \<Longrightarrow> NORMALIZE (\<lambda>x. q2isqrt_bits (bits x)) dest null_vec = null_vec"
  by (simp add: NORMALIZE_def INVNORM_def NORM2_def null_vec_def q2isqrt_bits_zero fnonzero_def)

section \<open>The kernel and the gain of the filter\<close>

declare transfer_real.simps [simp del]

declare transfer_loop.simps [simp del]

declare kernel_loop.simps [simp del]

declare coeff_loop.simps [simp del]

declare fact_loop.simps [simp del]

lemma fact_loop_fin: "fact_loop i (Fin r) = Fin (r * fact (nat (i - 1)))"
proof (induction i "Fin r" arbitrary: r rule: fact_loop.induct)
  case (1 i)
  show ?case
  proof (cases "i - 1 > 0")
    case True
    have n: "nat (i - 1) = Suc (nat (i - 1 - 1))" using True by simp
    have "fact_loop i (Fin r) = fact_loop (i - 1) (Fin (r * real_of_int (i - 1)))"
      using True by (subst fact_loop.simps) simp
    also have "\<dots> = Fin (r * real_of_int (i - 1) * fact (nat (i - 1 - 1)))"
      using "1.hyps"[OF True, of "r * real_of_int (i - 1)"] by simp
    also have "\<dots> = Fin (r * fact (nat (i - 1)))"
      using True by (subst n) (simp add: algebra_simps)
    finally show ?thesis .
  next
    case False
    then have "nat (i - 1) = 0" by simp
    then show ?thesis using False by (subst fact_loop.simps) simp
  qed
qed

lemma factorial_fin: "factorial i = Fin (fact (nat i))"
  by (simp add: factorial_def fact_loop_fin)

lemma bessel_poly_coeff_fin:
  "0 \<le> i \<Longrightarrow> i \<le> order \<Longrightarrow> bessel_poly_coeff order i = Fin (poly_real order i)"
  by (simp add: bessel_poly_coeff_def factorial_fin poly_real_def)

lemma poly_real_nonneg: "0 \<le> poly_real order i"
  by (simp add: poly_real_def)

lemma poly_real_pos: "0 \<le> i \<Longrightarrow> i \<le> order \<Longrightarrow> 0 < poly_real order i"
  by (simp add: poly_real_def)

lemma coeff_loop_at:
  "coeff_loop order i c j = (if i \<le> j \<and> j \<le> order then bessel_poly_coeff order j else c j)"
proof (induction order i c rule: coeff_loop.induct)
  case (1 order i coeff)
  show ?case
  proof (cases "i < order + 1")
    case True
    have "coeff_loop order i coeff j
            = coeff_loop order (i + 1) (coeff(i := bessel_poly_coeff order i)) j"
      using True by (subst coeff_loop.simps) simp
    also have "\<dots> = (if i + 1 \<le> j \<and> j \<le> order then bessel_poly_coeff order j
                       else (coeff(i := bessel_poly_coeff order i)) j)"
      by (rule "1.IH"[OF True])
    also have "\<dots> = (if i \<le> j \<and> j \<le> order then bessel_poly_coeff order j else coeff j)"
      using True by auto
    finally show ?thesis .
  next
    case False
    then show ?thesis by (subst coeff_loop.simps) auto
  qed
qed

lemma coeff_loop_fin:
  "0 \<le> order \<Longrightarrow> coeff_loop order 0 (\<lambda>_. Fin 0) j = Fin (poly_real order j)"
  by (simp add: coeff_loop_at bessel_poly_coeff_fin) (simp add: poly_real_def)

lemma transfer_loop_fin_aux:
  assumes "\<And>m. coeff m = Fin (a m)" "fdiv (Fin (real_of_int j)) fc = Fin u"
  shows "nat (order + 1 - i) = n \<Longrightarrow>
         transfer_loop coeff order fc j i (Fin A, Fin P)
           = (Fin (fst (transfer_real a order u i (A, P))), Fin (snd (transfer_real a order u i (A, P))))"
proof (induction n arbitrary: i A P)
  case 0
  then have "\<not> i < order + 1" by simp
  then show ?case
    by (subst transfer_loop.simps, subst transfer_real.simps, subst (2) transfer_real.simps) simp
next
  case (Suc n)
  then have lt: "i < order + 1" by simp
  have 4: "nat (order + 1 - (i + 1)) = n" using Suc.prems(1) by simp
  have "transfer_loop coeff order fc j i (Fin A, Fin P)
          = transfer_loop coeff order fc j (i + 1) (Fin (A + a i * P), Fin (P * u))"
    using lt by (subst transfer_loop.simps) (simp add: assms)
  also have "\<dots> = (Fin (fst (transfer_real a order u (i + 1) (A + a i * P, P * u))),
                    Fin (snd (transfer_real a order u (i + 1) (A + a i * P, P * u))))"
    by (rule Suc.IH[OF 4])
  also have "transfer_real a order u (i + 1) (A + a i * P, P * u) = transfer_real a order u i (A, P)"
    using lt by (subst (2) transfer_real.simps) simp
  finally show ?case .
qed

lemma transfer_loop_fin:
  assumes "\<And>m. coeff m = Fin (a m)" "fdiv (Fin (real_of_int j)) fc = Fin u"
  shows "transfer_loop coeff order fc j i (Fin A, Fin P)
           = (Fin (fst (transfer_real a order u i (A, P))), Fin (snd (transfer_real a order u i (A, P))))"
  by (rule transfer_loop_fin_aux[OF assms refl])

lemma transfer_real_mono:
  assumes "\<And>m. 0 \<le> a m" "0 \<le> u" "u \<le> u'"
  shows "nat (order + 1 - i) = n \<Longrightarrow> 0 \<le> P \<Longrightarrow> P \<le> P' \<Longrightarrow> A \<le> A' \<Longrightarrow>
         fst (transfer_real a order u i (A, P)) \<le> fst (transfer_real a order u' i (A', P'))"
proof (induction n arbitrary: i A P A' P')
  case 0
  then have "\<not> i < order + 1" by simp
  then show ?case using 0 by (subst transfer_real.simps, subst (2) transfer_real.simps) simp
next
  case (Suc n)
  then have lt: "i < order + 1" by simp
  have s: "transfer_real a order u i (A, P) = transfer_real a order u (i + 1) (A + a i * P, P * u)"
    "transfer_real a order u' i (A', P') = transfer_real a order u' (i + 1) (A' + a i * P', P' * u')"
    using lt by (subst transfer_real.simps, simp)+
  have "a i * P \<le> a i * P'" using Suc.prems(3) assms(1) by (intro mult_left_mono)
  then have 1: "A + a i * P \<le> A' + a i * P'" using Suc.prems(4) by simp
  have 2: "P * u \<le> P' * u'" using Suc.prems(2,3) assms(2,3) by (intro mult_mono) auto
  have 3: "0 \<le> P * u" using Suc.prems(2) assms(2) by simp
  have 4: "nat (order + 1 - (i + 1)) = n" using Suc.prems(1) by simp
  show ?case unfolding s by (rule Suc.IH[OF 4 3 2 1])
qed

lemma transfer_real_zero_power:
  "nat (order + 1 - i) = n \<Longrightarrow> fst (transfer_real a order u i (A, 0)) = A"
proof (induction n arbitrary: i A)
  case 0
  then have "\<not> i < order + 1" by simp
  then show ?case by (subst transfer_real.simps) simp
next
  case (Suc n)
  then have lt: "i < order + 1" by simp
  have 4: "nat (order + 1 - (i + 1)) = n" using Suc.prems(1) by simp
  show ?case using lt Suc.IH[OF 4, of A] by (subst transfer_real.simps) simp
qed

lemma transfer_real_start:
  assumes "0 \<le> order"
  shows "transfer_real a order u 0 (0, 1) = transfer_real a order u 1 (a 0, u)"
  using assms by (subst transfer_real.simps) simp

lemma transfer_real_at_zero:
  assumes "0 \<le> order"
  shows "fst (transfer_real a order 0 0 (0, 1)) = a 0"
  unfolding transfer_real_start[OF assms] by (rule transfer_real_zero_power) simp

lemma transfer_real_lower:
  assumes "\<And>m. 0 \<le> a m" "0 \<le> u" "0 \<le> order"
  shows "a 0 \<le> fst (transfer_real a order u 0 (0, 1))"
proof -
  have "fst (transfer_real a order 0 0 (0, 1)) \<le> fst (transfer_real a order u 0 (0, 1))"
    by (rule transfer_real_mono[OF assms(1) _ assms(2) refl]) simp_all
  then show ?thesis using transfer_real_at_zero[OF assms(3)] by simp
qed

lemma kernel_loop_at:
  "kernel_loop coeff order fc sz j arr i =
     (if j \<le> i \<and> i < sz
      then fdiv (coeff 0) (fst (transfer_loop coeff order fc i 0 (Fin 0, Fin 1)))
      else arr i)"
proof (induction coeff order fc sz j arr rule: kernel_loop.induct)
  case (1 coeff order fc sz j arr)
  let ?e = "\<lambda>i. fdiv (coeff 0) (fst (transfer_loop coeff order fc i 0 (Fin 0, Fin 1)))"
  show ?case
  proof (cases "j < sz")
    case True
    have "kernel_loop coeff order fc sz j arr i
            = kernel_loop coeff order fc sz (j + 1) (arr(j := ?e j)) i"
      using True by (subst kernel_loop.simps) simp
    also have "\<dots> = (if j + 1 \<le> i \<and> i < sz then ?e i else (arr(j := ?e j)) i)"
      by (rule "1.IH"[OF True])
    also have "\<dots> = (if j \<le> i \<and> i < sz then ?e i else arr i)"
      using True by auto
    finally show ?thesis .
  next
    case False
    then show ?thesis by (subst kernel_loop.simps) auto
  qed
qed

lemma kernel_fin:
  assumes "0 \<le> order" "0 < c" "0 \<le> j" "j < sz"
  shows "kernel_loop (coeff_loop order 0 (\<lambda>_. Fin 0)) order (Fin c) sz 0 arr j
           = Fin (weight_real order c j)"
    and "0 < weight_real order c j"
proof -
  let ?C = "coeff_loop order 0 (\<lambda>_. Fin 0)"
  let ?u = "real_of_int j / c"
  have u: "0 \<le> ?u" using assms by simp
  have d: "fdiv (Fin (real_of_int j)) (Fin c) = Fin ?u" using assms(2) by simp
  have t: "transfer_loop ?C order (Fin c) j 0 (Fin 0, Fin 1)
            = (Fin (fst (transfer_real (poly_real order) order ?u 0 (0, 1))),
               Fin (snd (transfer_real (poly_real order) order ?u 0 (0, 1))))"
    by (rule transfer_loop_fin[OF coeff_loop_fin[OF assms(1)] d])
  have lo: "poly_real order 0 \<le> fst (transfer_real (poly_real order) order ?u 0 (0, 1))"
    by (rule transfer_real_lower[OF poly_real_nonneg u assms(1)])
  have p0: "0 < poly_real order 0" using assms(1) by (intro poly_real_pos) simp_all
  then have nz: "fst (transfer_real (poly_real order) order ?u 0 (0, 1)) \<noteq> 0"
    and ps: "0 < fst (transfer_real (poly_real order) order ?u 0 (0, 1))" using lo by linarith+
  show "kernel_loop ?C order (Fin c) sz 0 arr j = Fin (weight_real order c j)"
    using assms(3,4) nz
    by (simp add: kernel_loop_at t coeff_loop_fin[OF assms(1)] weight_real_def)
  show "0 < weight_real order c j" unfolding weight_real_def using p0 ps by simp
qed

lemma weight_real_zero: "0 \<le> order \<Longrightarrow> weight_real order c 0 = 1"
  using poly_real_pos[of 0 order] by (simp add: weight_real_def transfer_real_at_zero)

lemma weight_real_antimono:
  assumes "0 \<le> order" "0 < c" "0 \<le> j" "j \<le> k"
  shows "weight_real order c k \<le> weight_real order c j"
proof -
  let ?T = "\<lambda>i. fst (transfer_real (poly_real order) order (real_of_int i / c) 0 (0, 1))"
  have u: "0 \<le> real_of_int j / c" "real_of_int j / c \<le> real_of_int k / c"
    using assms by (simp_all add: divide_right_mono)
  have m: "?T j \<le> ?T k"
    by (rule transfer_real_mono[OF poly_real_nonneg u refl]) simp_all
  have p0: "0 < poly_real order 0" using assms(1) by (intro poly_real_pos) simp_all
  have "poly_real order 0 \<le> ?T j"
    by (rule transfer_real_lower[OF poly_real_nonneg u(1) assms(1)])
  then have "0 < ?T j" using p0 by linarith
  then show ?thesis unfolding weight_real_def using m p0
    by (intro divide_left_mono) (auto intro: mult_pos_pos less_le_trans)
qed

lemma calculateBessel_fin:
  assumes "0 \<le> order" "0 < c" "0 \<le> j" "j < sz"
  shows "calculateBessel True arr sz order (Fin c) j = Fin (weight_real (min order 5) c j)"
proof -
  have o: "0 \<le> min order 5" using assms(1) by simp
  have m: "(if 5 < order then 5 else order) = min order 5" by simp
  show ?thesis
    unfolding calculateBessel_def Let_def m
    using kernel_fin(1)[OF o assms(2,3,4)] by simp
qed

text \<open>
  C9. For every order that is not negative (an order above 5 is clamped to 5) and every
  positive cutoff, the weights that \<^verbatim>\<open>calculateBessel\<close> stores are finite, positive
  and non-increasing along the positions: the weight at \<open>k\<close> is at most the weight at
  any \<open>j \<le> k\<close>, in particular at most the weight at 0, which is 1.
\<close>

theorem kernel_monotone:
  assumes "0 \<le> order" "0 < c" "0 \<le> j" "j \<le> k" "k < sz"
  shows "fle (calculateBessel True arr sz order (Fin c) k) (calculateBessel True arr sz order (Fin c) j) \<and>
         fle (calculateBessel True arr sz order (Fin c) k) (calculateBessel True arr sz order (Fin c) 0) \<and>
         flt (Fin 0) (calculateBessel True arr sz order (Fin c) k) \<and>
         calculateBessel True arr sz order (Fin c) 0 = Fin 1"
proof -
  have o: "0 \<le> min order 5" using assms(1) by simp
  have k0: "0 \<le> k" "j < sz" "0 < sz" using assms by simp_all
  note e = calculateBessel_fin[OF assms(1,2), of _ sz arr]
  have 1: "weight_real (min order 5) c k \<le> weight_real (min order 5) c j"
    by (rule weight_real_antimono[OF o assms(2,3,4)])
  have 2: "weight_real (min order 5) c k \<le> weight_real (min order 5) c 0"
    by (rule weight_real_antimono[OF o assms(2) _ k0(1)]) simp
  have 3: "0 < weight_real (min order 5) c k"
    by (rule kernel_fin(2)[OF o assms(2) k0(1) assms(5)])
  show ?thesis
    using 1 2 3 assms k0
    by (simp add: e weight_real_zero[OF o])
qed

text \<open>
  The kernel of \<^verbatim>\<open>main\<close> (order 3, cutoff 5) at the positions 0, 1 and 2.
\<close>

theorem kernel_monotone_witness:
  "fle (main_kernel 2) (main_kernel 1) \<and> fle (main_kernel 2) (main_kernel 0) \<and>
   flt (Fin 0) (main_kernel 2) \<and> main_kernel 0 = Fin 1"
  unfolding main_kernel_def SH_BUFFER_SIZE_def BESSEL_FREQ_CUTOFF_def
  by (rule kernel_monotone) simp_all


lemma walk_rule:
  assumes idx: "0 \<le> index" "index < 64"
    and step: "\<And>k v s. 0 \<le> k \<Longrightarrow> k < 64 \<Longrightarrow> P k v s \<Longrightarrow>
                 P (k + 1) (fadd v (fmul (c k) (arr ((index - k) mod 64)))) (fadd s (c k))"
  shows "nat (64 - k) = n \<Longrightarrow> 0 \<le> k \<Longrightarrow> k < 64 \<Longrightarrow> i = (index - k) mod 64 \<Longrightarrow> P k v s \<Longrightarrow>
     (case fst (bessel_walk c arr index i k v s tr) of (v', s', k') \<Rightarrow> k < k' \<and> k' \<le> 64 \<and> P k' v' s')"
proof (induction n arbitrary: k i v s tr)
  case 0
  then show ?case by simp
next
  case (Suc n)
  have i2: "prev_slot i = (index - (k + 1)) mod 64"
    using idx Suc.prems by (intro prev_slot_mod) auto
  have P': "P (k + 1) (fadd v (fmul (c k) (arr i))) (fadd s (c k))"
    using step[OF Suc.prems(2,3,5)] Suc.prems(4) by simp
  show ?case
  proof (cases "prev_slot i = index")
    case True
    show ?thesis unfolding walk_back[OF True] using Suc.prems(3) P' by simp
  next
    case False
    have k1: "k + 1 < 64"
    proof (rule ccontr)
      assume "\<not> k + 1 < 64"
      then have "k + 1 = 64" using Suc.prems by simp
      then have "prev_slot i = index" using i2 idx by simp
      then show False using False by simp
    qed
    show ?thesis
    proof (cases "flt (c (k + 1)) BESSEL_MIN_THRESHOLD")
      case True
      then have st: "flt (c (k + 1)) BESSEL_MIN_THRESHOLD \<or> k + 1 > SH_BUFFER_SIZE" by simp
      show ?thesis unfolding walk_stop[where c=c and k=k, OF False st] using k1 P' by simp
    next
      case nx: False
      have kk: "k + 1 \<le> SH_BUFFER_SIZE" using k1 by (simp add: SH_BUFFER_SIZE_def)
      have 4: "nat (64 - (k + 1)) = n" using Suc.prems(1) by simp
      have "case fst (bessel_walk c arr index (prev_slot i) (k + 1) (fadd v (fmul (c k) (arr i)))
                   (fadd s (c k)) (tr @ [Coeff k, Data i, Coeff k, Coeff (k + 1)])) of
              (v', s', k') \<Rightarrow> k + 1 < k' \<and> k' \<le> 64 \<and> P k' v' s'"
        using Suc.prems(2) k1 i2 P' by (intro Suc.IH[OF 4]) simp_all
      then show ?thesis unfolding walk_more[where c=c and k=k, OF False nx kk]
        by (auto split: prod.splits)
    qed
  qed
qed

lemma filter_rule:
  assumes idx: "0 \<le> index" "index < 64"
    and init: "P 0 (Fin 0) (Fin 0)"
    and step: "\<And>k v s. 0 \<le> k \<Longrightarrow> k < 64 \<Longrightarrow> P k v s \<Longrightarrow>
                 P (k + 1) (fadd v (fmul (c k) (arr ((index - k) mod 64)))) (fadd s (c k))"
  shows "\<exists>v s k. 0 < k \<and> k \<le> 64 \<and> P k v s \<and>
           dfilterBessel c arr index = fdiv v s \<and> ffilterBessel c arr index = fdiv v s"
proof -
  obtain v s k where w: "fst (bessel_walk c arr index index 0 (Fin 0) (Fin 0) []) = (v, s, k)"
    by (metis prod_cases3)
  have i0: "index = (index - 0) mod 64" using idx by simp
  have "case fst (bessel_walk c arr index index 0 (Fin 0) (Fin 0) []) of
          (v', s', k') \<Rightarrow> 0 < k' \<and> k' \<le> 64 \<and> P k' v' s'"
    by (rule walk_rule[where P=P, OF idx step refl _ _ i0 init]) simp_all
  then have "0 < k \<and> k \<le> 64 \<and> P k v s" by (simp add: w)
  then show ?thesis by (auto simp add: dfilterBessel_def ffilterBessel_def w)
qed

lemma fadd_zero_left: "fadd (Fin 0) y = y"
  by (cases y) simp_all

lemma fmul_add_pos:
  "0 < S \<Longrightarrow> 0 < w \<Longrightarrow> fadd (fmul (Fin S) x) (fmul (Fin w) x) = fmul (Fin (S + w)) x"
  by (cases x) (simp_all add: algebra_simps)

lemma fdiv_fmul_pos: "0 < S \<Longrightarrow> fdiv (fmul (Fin S) x) (Fin S) = x"
  by (cases x) simp_all

lemma mod64_range: "0 \<le> (m :: int) mod 64" "m mod 64 < 64"
  by simp_all

lemma dc_gain_positive:
  assumes pk: "positive_kernel c" and idx: "0 \<le> index" "index < 64"
    and const: "\<And>i. 0 \<le> i \<Longrightarrow> i < 64 \<Longrightarrow> arr i = x"
  shows "dfilterBessel c arr index = x" "ffilterBessel c arr index = x"
proof -
  define P where "P = (\<lambda>(k :: int) v s. \<exists>S. s = Fin S \<and>
                        (if k = 0 then S = 0 \<and> v = Fin 0 else 0 < S \<and> v = fmul (Fin S) x))"
  have init: "P 0 (Fin 0) (Fin 0)" by (simp add: P_def)
  have step: "P (k + 1) (fadd v (fmul (c k) (arr ((index - k) mod 64)))) (fadd s (c k))"
    if kb: "0 \<le> k" "k < 64" and Pk: "P k v s" for k v s
  proof -
    obtain w where w: "0 < w" "c k = Fin w" using pk kb by (auto simp: positive_kernel_def)
    have a: "arr ((index - k) mod 64) = x" by (rule const) simp_all
    obtain S where S: "s = Fin S" "if k = 0 then S = 0 \<and> v = Fin 0 else 0 < S \<and> v = fmul (Fin S) x"
      using Pk by (auto simp: P_def)
    show ?thesis
    proof (cases "k = 0")
      case True
      then show ?thesis using S w a by (simp add: P_def fadd_zero_left)
    next
      case False
      then have "0 < S" "v = fmul (Fin S) x" using S by simp_all
      then show ?thesis using S(1) w kb(1) a by (simp add: P_def fmul_add_pos)
    qed
  qed
  obtain v s k where r: "0 < k" "k \<le> 64" "P k v s"
    "dfilterBessel c arr index = fdiv v s" "ffilterBessel c arr index = fdiv v s"
    using filter_rule[where P=P, OF idx init step] by blast
  obtain S where S: "s = Fin S" "0 < S" "v = fmul (Fin S) x" using r(1,3) by (auto simp: P_def)
  show "dfilterBessel c arr index = x" "ffilterBessel c arr index = x"
    using r(4,5) S by (simp_all add: fdiv_fmul_pos)
qed

lemma calculateBessel_positive:
  assumes "0 \<le> order" "0 < cutoff"
  shows "positive_kernel (calculateBessel True arr SH_BUFFER_SIZE order (Fin cutoff))"
  unfolding positive_kernel_def SH_BUFFER_SIZE_def
proof (intro allI impI)
  fix k :: int
  assume k: "0 \<le> k \<and> k < 64"
  have o: "0 \<le> min order 5" using assms(1) by simp
  have "0 < weight_real (min order 5) cutoff k"
    using k by (intro kernel_fin(2)[where sz=64, OF o assms(2)]) simp_all
  then show "\<exists>w. 0 < w \<and> calculateBessel True arr 64 order (Fin cutoff) k = Fin w"
    using calculateBessel_fin[OF assms, of k 64 arr] k by auto
qed

text \<open>
  C8. With a kernel computed by \<^verbatim>\<open>calculateBessel\<close> (order not negative, cutoff
  positive), \<^verbatim>\<open>dfilterBessel\<close> and \<^verbatim>\<open>ffilterBessel\<close> applied at any index of a buffer
  whose 64 slots hold one value return that value: the weighted sum is the value times
  the sum of the weights, which is positive.
\<close>

theorem dc_gain:
  assumes "0 \<le> order" "0 < cutoff" "0 \<le> index" "index < SH_BUFFER_SIZE"
    and "\<forall>i. 0 \<le> i \<and> i < SH_BUFFER_SIZE \<longrightarrow> arr i = x"
  shows "dfilterBessel (calculateBessel True coeffs SH_BUFFER_SIZE order (Fin cutoff)) arr index = x \<and>
         ffilterBessel (calculateBessel True coeffs SH_BUFFER_SIZE order (Fin cutoff)) arr index = x"
proof -
  have pk: "positive_kernel (calculateBessel True coeffs SH_BUFFER_SIZE order (Fin cutoff))"
    by (rule calculateBessel_positive[OF assms(1,2)])
  have c: "\<And>i. 0 \<le> i \<Longrightarrow> i < 64 \<Longrightarrow> arr i = x" using assms(5) by (simp add: SH_BUFFER_SIZE_def)
  have i: "0 \<le> index" "index < 64" using assms(3,4) by (simp_all add: SH_BUFFER_SIZE_def)
  show ?thesis using dc_gain_positive[OF pk i c] by simp
qed

text \<open>
  The kernel of \<^verbatim>\<open>main\<close> on a buffer filled with 7, at index 3.
\<close>

theorem dc_gain_witness:
  "dfilterBessel main_kernel (\<lambda>_. Fin 7) 3 = Fin 7 \<and> ffilterBessel main_kernel (\<lambda>_. Fin 7) 3 = Fin 7"
  unfolding main_kernel_def BESSEL_FREQ_CUTOFF_def
  by (rule dc_gain) (simp_all add: SH_BUFFER_SIZE_def)

text \<open>
  The hypothesis on the kernel is needed: with the coefficient array still zeroed (as it
  is before \<^verbatim>\<open>calculateBessel\<close> has run, or after its allocation failed at start) the
  filter divides 0 by 0.
\<close>

theorem zero_kernel_no_gain:
  "dfilterBessel (\<lambda>_. Fin 0) (\<lambda>_. Fin 7) 3 = NaN"
proof -
  have st: "flt ((\<lambda>_. Fin 0) (0 + 1)) BESSEL_MIN_THRESHOLD \<or> 0 + 1 > SH_BUFFER_SIZE"
    by (simp add: BESSEL_MIN_THRESHOLD_def)
  note w = walk_stop[where c="\<lambda>_. Fin 0" and k=0 and i=3 and index=3, OF prev_slot_neq st]
  show ?thesis by (simp add: dfilterBessel_def w)
qed

section \<open>The status returned by a cycle\<close>

lemma nan_check_iff:
  "nan_check 1 st = - 1 \<longleftrightarrow>
     has_nan (slot (g_B st) (mag_index st)) \<or> has_nan (slot (g_W st) (omega_index st)) \<or>
     has_nan (slot (g_S st) (sol_index st))"
  by (simp add: nan_check_def has_nan_def slot_def)

lemma nan_check_codes: "nan_check 1 st = 1 \<or> nan_check 1 st = - 1"
  by (simp add: nan_check_def)

text \<open>
  C2, as the code has it. In a cycle that computes the angular velocity, the status is
  -1 exactly when a component of the field slot, of the angular-velocity slot or of the
  sun-vector slot written in this cycle is a NaN, and 1 otherwise. The three slots are
  those at the cursors the cycle has advanced. An infinite component does not count, and
  the field-rate slot is not looked at.
\<close>

theorem nan_status:
  assumes "computes_omega q s st"
  shows "(fst (readSensors q s st) = - 1 \<longleftrightarrow>
            has_nan (slot (g_B (snd (readSensors q s st))) (mag_index (snd (readSensors q s st)))) \<or>
            has_nan (slot (g_W (snd (readSensors q s st))) (omega_index (snd (readSensors q s st)))) \<or>
            has_nan (slot (g_S (snd (readSensors q s st))) (sol_index (snd (readSensors q s st))))) \<and>
         (fst (readSensors q s st) \<noteq> - 1 \<longleftrightarrow> fst (readSensors q s st) = 1) \<and>
         mag_index (snd (readSensors q s st)) = (mag_index st + 1) smod SH_BUFFER_SIZE \<and>
         omega_index (snd (readSensors q s st)) = (1 + omega_index st) smod SH_BUFFER_SIZE \<and>
         sol_index (snd (readSensors q s st)) = (sol_index st + 1) smod SH_BUFFER_SIZE"
proof -
  let ?st1 = "read_field q s st"
  have e: "\<not> (mag_index ?st1 < 1 \<and> B_full ?st1 = 0)"
    and o: "\<not> (mag_index (read_bdot ?st1) < 2 \<and> B_full (read_bdot ?st1) = 0)"
    using assms by (simp_all add: computes_omega_def Let_def)
  let ?f = "getSVec q (getOmega (read_bdot ?st1))"
  have r: "readSensors q s st = (nan_check 1 ?f, ?f)" by (rule readSensors_full[OF e])
  have "omega_index (getOmega (read_bdot ?st1)) = (1 + omega_index st) smod SH_BUFFER_SIZE"
    using o by (auto simp add: getOmega_proj read_bdot_proj read_field_proj)
  then have oi: "omega_index ?f = (1 + omega_index st) smod SH_BUFFER_SIZE"
    by (simp add: getSVec_proj)
  have mi: "mag_index ?f = (mag_index st + 1) smod SH_BUFFER_SIZE"
    by (simp add: getSVec_proj getOmega_proj read_bdot_proj read_field_proj)
  have si: "sol_index ?f = (sol_index st + 1) smod SH_BUFFER_SIZE"
    by (simp add: getSVec_proj getOmega_proj read_bdot_proj read_field_proj)
  have n1: "nan_check 1 ?f \<noteq> - 1 \<longleftrightarrow> nan_check 1 ?f = 1"
    using nan_check_codes[of ?f] by auto
  show ?thesis unfolding r fst_conv snd_conv
    by (intro conjI nan_check_iff n1 mi oi si)
qed

text \<open>
  A state with two field-rate samples and the field cursor at 2 meets the hypothesis.
\<close>

theorem nan_status_witness:
  "computes_omega q2isqrt_sqrt sample_dark bdot_pair_state \<and>
   (fst (readSensors q2isqrt_sqrt sample_dark bdot_pair_state) = - 1 \<or>
    fst (readSensors q2isqrt_sqrt sample_dark bdot_pair_state) = 1) \<and>
   omega_index (snd (readSensors q2isqrt_sqrt sample_dark bdot_pair_state)) = 0"
proof -
  have c: "computes_omega q2isqrt_sqrt sample_dark bdot_pair_state"
    by (simp add: computes_omega_def Let_def read_bdot_proj read_field_proj bdot_pair_state_def
        init_acs_def SH_BUFFER_SIZE_def signed_modulo_int_def)
  have "omega_index bdot_pair_state = - 1" by (simp add: bdot_pair_state_def init_acs_def)
  then show ?thesis using nan_status[OF c] c
    by (auto simp add: SH_BUFFER_SIZE_def)
qed

section \<open>What the filter returns on finite, infinite and NaN data\<close>

lemma isfinite_iff: "isfinite x \<longleftrightarrow> (\<exists>a. x = Fin a)"
  by (cases x) simp_all

lemma positive_iff: "flt (Fin 0) x \<and> isfinite x \<longleftrightarrow> (\<exists>a. 0 < a \<and> x = Fin a)"
  by (cases x) simp_all

lemma mod_neq_index:
  fixes index k :: int
  assumes "0 \<le> index" "index < 64" "0 < k" "k < 64"
  shows "(index - k) mod 64 \<noteq> index"
proof
  assume e: "(index - k) mod 64 = index"
  have "index mod 64 = index" using assms(1,2) by (intro mod_pos_pos_trivial)
  then have "(index - k) mod 64 = index mod 64" using e by simp
  then have "64 dvd (index - k) - index" by (simp only: mod_eq_dvd_iff)
  then have "64 dvd k" by (simp add: dvd_minus_iff)
  then have "64 \<le> k" using assms(3) by (intro zdvd_imp_le)
  then show False using assms(4) by simp
qed

lemma filter_finite:
  assumes pk: "positive_kernel c" and idx: "0 \<le> index" "index < 64"
    and fin: "finite_array arr"
  shows "isfinite (dfilterBessel c arr index)" "isfinite (ffilterBessel c arr index)"
proof -
  define P where "P = (\<lambda>(k :: int) v s. \<exists>V S. v = Fin V \<and> s = Fin S \<and> (if k = 0 then S = 0 else 0 < S))"
  have init: "P 0 (Fin 0) (Fin 0)" by (simp add: P_def)
  have step: "P (k + 1) (fadd v (fmul (c k) (arr ((index - k) mod 64)))) (fadd s (c k))"
    if kb: "0 \<le> k" "k < 64" and Pk: "P k v s" for k v s
  proof -
    obtain w where w: "0 < w" "c k = Fin w" using pk kb by (auto simp: positive_kernel_def)
    have "isfinite (arr ((index - k) mod 64))"
      using fin mod64_range[of "index - k"] unfolding finite_array_def by blast
    then obtain a where a: "arr ((index - k) mod 64) = Fin a" by (auto simp: isfinite_iff)
    obtain V S where S: "v = Fin V" "s = Fin S" "if k = 0 then S = 0 else 0 < S"
      using Pk by (auto simp: P_def)
    have "0 \<le> S" using S(3) by (auto split: if_splits)
    then show ?thesis using S(1,2) w a kb(1) by (simp add: P_def)
  qed
  obtain v s k where r: "0 < k" "k \<le> 64" "P k v s"
    "dfilterBessel c arr index = fdiv v s" "ffilterBessel c arr index = fdiv v s"
    using filter_rule[where P=P, OF idx init step] by blast
  obtain V S where S: "v = Fin V" "s = Fin S" "0 < S" using r(1,3) by (auto simp: P_def)
  show "isfinite (dfilterBessel c arr index)" "isfinite (ffilterBessel c arr index)"
    using r(4,5) S by simp_all
qed

lemma filter_positive:
  assumes pk: "positive_kernel c" and idx: "0 \<le> index" "index < 64"
    and nn: "nonneg_array arr" and pos: "arr index = Fin a0" "0 < a0"
  shows "\<exists>r. 0 < r \<and> dfilterBessel c arr index = Fin r \<and> ffilterBessel c arr index = Fin r"
proof -
  define P where "P = (\<lambda>(k :: int) v s. \<exists>V S. v = Fin V \<and> s = Fin S \<and>
                         (if k = 0 then S = 0 \<and> V = 0 else 0 < S \<and> 0 < V))"
  have init: "P 0 (Fin 0) (Fin 0)" by (simp add: P_def)
  have step: "P (k + 1) (fadd v (fmul (c k) (arr ((index - k) mod 64)))) (fadd s (c k))"
    if kb: "0 \<le> k" "k < 64" and Pk: "P k v s" for k v s
  proof -
    obtain w where w: "0 < w" "c k = Fin w" using pk kb by (auto simp: positive_kernel_def)
    obtain a where a: "0 \<le> a" "arr ((index - k) mod 64) = Fin a"
      using nn mod64_range[of "index - k"] unfolding nonneg_array_def by blast
    obtain V S where S: "v = Fin V" "s = Fin S" "if k = 0 then S = 0 \<and> V = 0 else 0 < S \<and> 0 < V"
      using Pk by (auto simp: P_def)
    show ?thesis
    proof (cases "k = 0")
      case True
      then have "a = a0" using a(2) pos(1) idx by simp
      then have "0 < w * a" using w(1) pos(2) by simp
      then show ?thesis using True S w a(2) by (simp add: P_def)
    next
      case False
      then have "0 < S" "0 < V" using S(3) by simp_all
      moreover have "0 \<le> w * a" using w(1) a(1) by simp
      ultimately show ?thesis using S(1,2) w a(2) kb(1) by (simp add: P_def add_pos_nonneg)
    qed
  qed
  obtain v s k where r: "0 < k" "k \<le> 64" "P k v s"
    "dfilterBessel c arr index = fdiv v s" "ffilterBessel c arr index = fdiv v s"
    using filter_rule[where P=P, OF idx init step] by blast
  obtain V S where S: "v = Fin V" "s = Fin S" "0 < S" "0 < V" using r(1,3) by (auto simp: P_def)
  have "0 < V / S" using S(3,4) by simp
  then show ?thesis using r(4,5) S by auto
qed

lemma filter_infinite:
  assumes pk: "positive_kernel c" and idx: "0 \<le> index" "index < 64"
    and inf: "arr index = x" "x = PInf \<or> x = NInf"
    and fin: "\<And>i. 0 \<le> i \<Longrightarrow> i < 64 \<Longrightarrow> i \<noteq> index \<Longrightarrow> isfinite (arr i)"
  shows "dfilterBessel c arr index = x" "ffilterBessel c arr index = x"
proof -
  define P where "P = (\<lambda>(k :: int) v s. \<exists>S. s = Fin S \<and>
                         (if k = 0 then S = 0 \<and> v = Fin 0 else 0 < S \<and> v = x))"
  have init: "P 0 (Fin 0) (Fin 0)" by (simp add: P_def)
  have step: "P (k + 1) (fadd v (fmul (c k) (arr ((index - k) mod 64)))) (fadd s (c k))"
    if kb: "0 \<le> k" "k < 64" and Pk: "P k v s" for k v s
  proof -
    obtain w where w: "0 < w" "c k = Fin w" using pk kb by (auto simp: positive_kernel_def)
    obtain S where S: "s = Fin S" "if k = 0 then S = 0 \<and> v = Fin 0 else 0 < S \<and> v = x"
      using Pk by (auto simp: P_def)
    show ?thesis
    proof (cases "k = 0")
      case True
      then have "arr ((index - k) mod 64) = x" using inf(1) idx by simp
      then show ?thesis using True S w inf(2) by (auto simp add: P_def)
    next
      case False
      then have k0: "0 < k" using kb(1) by simp
      have "isfinite (arr ((index - k) mod 64))"
        using mod_neq_index[OF idx k0 kb(2)] by (intro fin) simp_all
      then obtain a where a: "arr ((index - k) mod 64) = Fin a" by (auto simp: isfinite_iff)
      have "0 < S" "v = x" using False S(2) by simp_all
      then show ?thesis using S(1) w a kb(1) inf(2) by (auto simp add: P_def)
    qed
  qed
  obtain v s k where r: "0 < k" "k \<le> 64" "P k v s"
    "dfilterBessel c arr index = fdiv v s" "ffilterBessel c arr index = fdiv v s"
    using filter_rule[where P=P, OF idx init step] by blast
  obtain S where S: "s = Fin S" "0 < S" "v = x" using r(1,3) by (auto simp: P_def)
  show "dfilterBessel c arr index = x" "ffilterBessel c arr index = x"
    using r(4,5) S inf(2) by auto
qed

lemma filter_nan:
  assumes idx: "0 \<le> index" "index < 64" and nan: "arr index = NaN"
  shows "dfilterBessel c arr index = NaN" "ffilterBessel c arr index = NaN"
proof -
  define P where "P = (\<lambda>(k :: int) (v :: fp) (s :: fp). if k = 0 then True else v = NaN)"
  have init: "P 0 (Fin 0) (Fin 0)" by (simp add: P_def)
  have step: "P (k + 1) (fadd v (fmul (c k) (arr ((index - k) mod 64)))) (fadd s (c k))"
    if kb: "0 \<le> k" "k < 64" and Pk: "P k v s" for k v s
  proof (cases "k = 0")
    case True
    then have "arr ((index - k) mod 64) = NaN" using nan idx by simp
    then show ?thesis using True by (cases v; cases "c 0") (simp_all add: P_def)
  next
    case False
    then show ?thesis using Pk kb(1) by (simp add: P_def)
  qed
  obtain v s k where r: "0 < k" "k \<le> 64" "P k v s"
    "dfilterBessel c arr index = fdiv v s" "ffilterBessel c arr index = fdiv v s"
    using filter_rule[where P=P, OF idx init step] by blast
  have "v = NaN" using r(1,3) by (simp add: P_def)
  then show "dfilterBessel c arr index = NaN" "ffilterBessel c arr index = NaN"
    using r(4,5) by simp_all
qed

section \<open>The values written by one cycle\<close>

lemma slot_upd_arr:
  "x_arr (slot_upd b i (x, y, z)) = (x_arr b)(i := x)"
  "y_arr (slot_upd b i (x, y, z)) = (y_arr b)(i := y)"
  "z_arr (slot_upd b i (x, y, z)) = (z_arr b)(i := z)"
  by (simp_all add: slot_upd_def)

lemma slot_upd_twice: "slot_upd (slot_upd b i v) i w = slot_upd b i w"
  by (cases v; cases w) (simp add: slot_upd_def)

lemma slot_upd_other: "i \<noteq> j \<Longrightarrow> slot (slot_upd b i v) j = slot b j"
  by (cases v) (simp add: slot_def slot_upd_def)

lemma apply_arr:
  "x_arr (APPLY_DBESSEL c b i) = (x_arr b)(i := dfilterBessel c (x_arr b) i)"
  "y_arr (APPLY_DBESSEL c b i) = (y_arr b)(i := dfilterBessel c (y_arr b) i)"
  "z_arr (APPLY_DBESSEL c b i) = (z_arr b)(i := dfilterBessel c (z_arr b) i)"
  "x_arr (APPLY_FBESSEL c b i) = (x_arr b)(i := ffilterBessel c (x_arr b) i)"
  "y_arr (APPLY_FBESSEL c b i) = (y_arr b)(i := ffilterBessel c (y_arr b) i)"
  "z_arr (APPLY_FBESSEL c b i) = (z_arr b)(i := ffilterBessel c (z_arr b) i)"
  by (simp_all add: APPLY_DBESSEL_def APPLY_FBESSEL_def Let_def)

lemma apply_slot:
  "slot (APPLY_DBESSEL c b i) i =
     (dfilterBessel c (x_arr b) i, dfilterBessel c (y_arr b) i, dfilterBessel c (z_arr b) i)"
  "slot (APPLY_FBESSEL c b i) i =
     (ffilterBessel c (x_arr b) i, ffilterBessel c (y_arr b) i, ffilterBessel c (z_arr b) i)"
  "j \<noteq> i \<Longrightarrow> slot (APPLY_DBESSEL c b i) j = slot b j"
  "j \<noteq> i \<Longrightarrow> slot (APPLY_FBESSEL c b i) j = slot b j"
  by (simp_all add: slot_def apply_arr)

lemma finite_array_upd: "finite_array arr \<Longrightarrow> isfinite v \<Longrightarrow> finite_array (arr(i := v))"
  by (simp add: finite_array_def)

lemma finite_vec_iff: "finite_vec v \<longleftrightarrow> (\<exists>x y z. v = (Fin x, Fin y, Fin z))"
  by (cases v) (auto simp add: finite_vec_def isfinite_iff)

lemma finite_buffer_slot_upd: "finite_buffer b \<Longrightarrow> finite_vec v \<Longrightarrow> finite_buffer (slot_upd b i v)"
  by (cases v) (simp add: finite_buffer_def finite_vec_def slot_upd_arr finite_array_upd)

lemma finite_buffer_clear: "finite_buffer b \<Longrightarrow> finite_buffer (VECTOR_CLEAR b i)"
  by (simp add: VECTOR_CLEAR_def finite_buffer_slot_upd null_vec_def finite_vec_def)

lemma finite_buffer_apply:
  assumes "positive_kernel c" "0 \<le> i" "i < 64" "finite_buffer b"
  shows "finite_buffer (APPLY_DBESSEL c b i)" "finite_buffer (APPLY_FBESSEL c b i)"
  using assms(4) filter_finite[OF assms(1,2,3)]
  by (simp_all add: finite_buffer_def apply_arr finite_array_upd)

lemma finite_slot: "finite_buffer b \<Longrightarrow> 0 \<le> i \<Longrightarrow> i < 64 \<Longrightarrow> finite_vec (slot b i)"
  by (simp add: finite_buffer_def finite_array_def finite_vec_def slot_def)

lemma zero_buffer_finite: "finite_buffer (zero_buffer stray)"
  by (simp add: finite_buffer_def finite_array_def zero_buffer_def zeroed_def SH_BUFFER_SIZE_def)

lemma advance_range:
  assumes "- 1 \<le> idx" "idx \<le> 63"
  shows "0 \<le> (idx + 1) smod SH_BUFFER_SIZE" "(idx + 1) smod SH_BUFFER_SIZE < 64"
    "0 \<le> (1 + idx) smod SH_BUFFER_SIZE" "(1 + idx) smod SH_BUFFER_SIZE < 64"
  using assms by (simp_all add: advance_cursor)

lemma prev_slot_advance:
  assumes "0 \<le> idx" "idx \<le> 63"
  shows "prev_slot ((idx + 1) smod SH_BUFFER_SIZE) = idx"
    "(idx + 1) smod SH_BUFFER_SIZE \<noteq> idx"
  using assms by (simp_all add: advance_cursor prev_slot_def SH_BUFFER_SIZE_def)

lemma prev_slot_range:
  assumes "0 \<le> i" "i < 64"
  shows "0 \<le> prev_slot i" "prev_slot i < 64"
  using assms by (simp_all add: prev_slot_def SH_BUFFER_SIZE_def)

lemma prev_index_int8:
  assumes "0 \<le> i" "i < 64"
  shows "int8_t (if i - 1 < 0 then SH_BUFFER_SIZE - i - 1 else i - 1) = prev_slot i"
    "int8_t i = i"
proof -
  have "(if i - 1 < 0 then SH_BUFFER_SIZE - i - 1 else i - 1) = prev_slot i"
    using assms by (auto simp add: prev_slot_def)
  then show "int8_t (if i - 1 < 0 then SH_BUFFER_SIZE - i - 1 else i - 1) = prev_slot i"
    using prev_slot_range[OF assms] by (simp add: int8_small)
  show "int8_t i = i" using assms by (simp add: int8_small)
qed

lemma freq_ten: "freq_d = Fin 10" "freq_f = Fin 10"
  by (simp_all add: freq_d_def freq_f_def DETUMBLE_TIME_STEP_def)

lemma read_field_B:
  "g_B (read_field q s st) =
     APPLY_DBESSEL (bessel_coeff st)
       (slot_upd (g_B st) ((mag_index st + 1) smod SH_BUFFER_SIZE) (mag_measure s))
       ((mag_index st + 1) smod SH_BUFFER_SIZE)"
  by (simp add: read_field_proj VECTOR_CLEAR_def slot_upd_twice)

lemma prev_index_split:
  assumes "0 \<le> i" "i < 64"
  shows "i < 1 \<Longrightarrow> int8_t (SH_BUFFER_SIZE - i - 1) = prev_slot i"
    and "\<not> i < 1 \<Longrightarrow> int8_t (i - 1) = prev_slot i"
  using assms by (simp_all add: prev_slot_def int8_small SH_BUFFER_SIZE_def)

lemma read_bdot_Bt:
  assumes "0 \<le> mag_index st" "mag_index st < 64"
  shows "g_Bt (read_bdot st) =
     APPLY_DBESSEL (bessel_coeff st)
       (slot_upd (g_Bt st) ((bdot_index st + 1) smod SH_BUFFER_SIZE)
          (VECTOR_MIXED (\<lambda>c. fmul c freq_d)
             (VECTOR_OP fsub (slot (g_B st) (mag_index st)) (slot (g_B st) (prev_slot (mag_index st))))))
       ((bdot_index st + 1) smod SH_BUFFER_SIZE)"
  unfolding read_bdot_def Let_def freq_d_def[symmetric]
  by (simp add: prev_index_int8(2)[OF assms] prev_index_split[OF assms] slot_slot_upd slot_upd_twice)

lemma getOmega_W:
  assumes "\<not> (mag_index st < 2 \<and> B_full st = 0)" "0 \<le> bdot_index st" "bdot_index st < 64"
  shows "g_W (getOmega st) =
     APPLY_FBESSEL (bessel_coeff st)
       (slot_upd (g_W st) ((1 + omega_index st) smod SH_BUFFER_SIZE)
          (VECTOR_MIXED (\<lambda>c. fdiv (fmul c freq_f) (NORM2 (slot (g_Bt st) (prev_slot (bdot_index st)))))
             (CROSS_PRODUCT (slot (g_Bt st) (bdot_index st))
                            (slot (g_Bt st) (prev_slot (bdot_index st))))))
       ((1 + omega_index st) smod SH_BUFFER_SIZE)"
proof -
  have g: "(if mag_index st < 2 \<and> B_full st = 0 then a else b) = b" for a b :: acs
    using assms(1) by auto
  show ?thesis
    unfolding getOmega_def Let_def freq_f_def[symmetric] g
    by (simp add: prev_index_int8(2)[OF assms(2,3)] prev_index_split[OF assms(2,3)]
          slot_slot_upd slot_upd_twice)
qed

lemma getSVec_dark:
  assumes "g_CSS st 0 = Fin 0" "g_CSS st 1 = Fin 0" "g_CSS st 2 = Fin 0" "g_CSS st 3 = Fin 0"
    "g_CSS st 4 = Fin 0" "g_CSS st 5 = Fin 0" "g_CSS st 6 = Fin 0"
  shows "g_S (getSVec q st) = slot_upd (g_S st) ((sol_index st + 1) smod SH_BUFFER_SIZE) null_vec"
  by (simp add: getSVec_sun Let_def assms fsub_def slot_slot_upd NORM_def NORM2_def
        CSS_MIN_LUX_THRESHOLD_def VECTOR_CLEAR_def slot_upd_twice)

lemma dark_css:
  assumes "css_x s = Fin 0" "css_y s = Fin 0" "css_z s = Fin 0"
  shows "read_css s css 0 = Fin 0" "read_css s css 1 = Fin 0" "read_css s css 2 = Fin 0"
    "read_css s css 3 = Fin 0" "read_css s css 4 = Fin 0" "read_css s css 5 = Fin 0"
    "read_css s css 6 = Fin 0"
  by (simp_all add: read_css_def Let_def assms)

section \<open>A cycle on finite data\<close>

lemma cur_nonneg: "k \<le> n \<Longrightarrow> 0 \<le> cur k n"
  by (simp add: cur_def)

lemma bdot_cursors:
  assumes "1 \<le> n" "cursors_at n st"
  shows "mag_index (read_bdot (read_field q s st)) = cur 1 (n + 1)"
    and "B_full (read_bdot (read_field q s st)) = full_after 1 (n + 1)"
    and "bdot_index (read_bdot (read_field q s st)) = cur 2 (n + 1)"
proof -
  have n0: "0 \<le> n" using assms(1) by simp
  note c = assms(2)[unfolded cursors_at_def]
  note f = field_cursors[OF n0 assms(2), of q s]
  show "mag_index (read_bdot (read_field q s st)) = cur 1 (n + 1)"
    using f by (simp add: read_bdot_proj)
  have k2: "(2::int) \<le> n + 1" using assms(1) by simp
  show "bdot_index (read_bdot (read_field q s st)) = cur 2 (n + 1)"
    using cur_step[OF k2] cur_bounds[of 2 n] c
    by (simp add: read_bdot_proj read_field_proj advance_cursor)
  show "B_full (read_bdot (read_field q s st)) = full_after 1 (n + 1)"
  proof (cases "cur 2 n = 63")
    case True
    then have "full_after 1 (n + 1) = 1" using cur_63[OF True] by (simp add: full_after_def)
    then show ?thesis using True c by (simp add: read_bdot_proj read_field_proj SH_BUFFER_SIZE_def)
  next
    case False
    then show ?thesis using c f by (simp add: read_bdot_proj read_field_proj SH_BUFFER_SIZE_def)
  qed
qed

lemma cursors_compute:
  assumes "2 \<le> n" "cursors_at n st"
  shows "computes_omega q s st"
proof -
  have n0: "0 \<le> n" and n1: "1 \<le> n" using assms(1) by simp_all
  note f = field_cursors[OF n0 assms(2), of q s]
  note b = bdot_cursors[OF n1 assms(2), of q s]
  have e: "\<not> (cur 1 (n + 1) < 1 \<and> full_after 1 (n + 1) = 0)"
    using early_iff[OF n0] assms(1) by simp
  have o: "\<not> (cur 1 (n + 1) < 2 \<and> full_after 1 (n + 1) = 0)"
    using omega_skip_iff[OF n1] assms(1) by simp
  show ?thesis unfolding computes_omega_def Let_def f b using e o by simp
qed

lemma finite_vec_sub: "finite_vec u \<Longrightarrow> finite_vec v \<Longrightarrow> finite_vec (VECTOR_OP fsub u v)"
  by (auto simp add: finite_vec_iff VECTOR_OP_def fsub_def)

lemma finite_vec_cross: "finite_vec u \<Longrightarrow> finite_vec v \<Longrightarrow> finite_vec (CROSS_PRODUCT u v)"
  by (auto simp add: finite_vec_iff CROSS_PRODUCT_def fsub_def)

lemma finite_vec_scale: "finite_vec u \<Longrightarrow> finite_vec (VECTOR_MIXED (\<lambda>c. fmul c (Fin a)) u)"
  by (auto simp add: finite_vec_iff VECTOR_MIXED_def)

lemma finite_vec_scale_div:
  "n \<noteq> 0 \<Longrightarrow> finite_vec u \<Longrightarrow> finite_vec (VECTOR_MIXED (\<lambda>c. fdiv (fmul c (Fin a)) (Fin n)) u)"
  by (auto simp add: finite_vec_iff VECTOR_MIXED_def)

lemma finite_norm2: "finite_vec u \<Longrightarrow> isfinite (NORM2 u)"
  by (auto simp add: finite_vec_iff NORM2_def)

lemma finite_no_nan: "finite_vec v \<Longrightarrow> \<not> has_nan v"
  by (auto simp add: finite_vec_iff has_nan_def)

lemma clean_cycle:
  assumes pk: "positive_kernel (bessel_coeff st)"
    and fb: "finite_buffer (g_B st)" "finite_buffer (g_Bt st)" "finite_buffer (g_W st)"
            "finite_buffer (g_S st)"
    and c: "cursors_at n st" and n2: "2 \<le> n"
    and fs: "finite_vec (mag_measure s)"
    and dark: "css_x s = Fin 0" "css_y s = Fin 0" "css_z s = Fin 0"
    and nn: "NORM2 (slot (g_Bt st) (bdot_index st)) \<noteq> Fin 0"
  shows "fst (readSensors q s st) = 1"
    and "finite_buffer (g_B (snd (readSensors q s st)))"
    and "finite_buffer (g_Bt (snd (readSensors q s st)))"
    and "finite_buffer (g_W (snd (readSensors q s st)))"
    and "finite_buffer (g_S (snd (readSensors q s st)))"
    and "bessel_coeff (snd (readSensors q s st)) = bessel_coeff st"
    and "slot (g_Bt (snd (readSensors q s st))) (bdot_index st) = slot (g_Bt st) (bdot_index st)"
proof -
  let ?st1 = "read_field q s st"
  let ?st2 = "read_bdot ?st1"
  let ?st3 = "getOmega ?st2"
  let ?st4 = "getSVec q ?st3"
  have n0: "0 \<le> n" and n1: "1 \<le> n" using n2 by simp_all
  note cb = cursors_bounds[OF c]
  note cd = c[unfolded cursors_at_def]
  have co: "computes_omega q s st" by (rule cursors_compute[OF n2 c])
  then have e: "\<not> (mag_index ?st1 < 1 \<and> B_full ?st1 = 0)"
    and o: "\<not> (mag_index ?st2 < 2 \<and> B_full ?st2 = 0)"
    by (simp_all add: computes_omega_def Let_def)
  have r: "readSensors q s st = (nan_check 1 ?st4, ?st4)" by (rule readSensors_full[OF e])
  have c4: "cursors_at (n + 1) ?st4" using readSensors_cursors[OF n0 c, of q s] by (simp add: r)
  note c4d = c4[unfolded cursors_at_def]
  \<comment> \<open>the field\<close>
  have mi: "0 \<le> mag_index ?st1" "mag_index ?st1 < 64"
    using advance_range[OF cb(1,2)] by (simp_all add: read_field_proj)
  have B1: "finite_buffer (g_B ?st1)"
    unfolding read_field_B
    by (intro finite_buffer_apply(1) pk finite_buffer_slot_upd fb fs advance_range[OF cb(1,2)])
  have k1: "bessel_coeff ?st1 = bessel_coeff st" by (simp add: read_field_proj)
  \<comment> \<open>the field rate\<close>
  have bi: "0 \<le> bdot_index st" "bdot_index st \<le> 63"
    using cd cur_nonneg[of 2 n] n2 cb(4) by simp_all
  have bi64: "bdot_index st < 64" using bi(2) by simp
  have bj: "0 \<le> bdot_index ?st2" "bdot_index ?st2 < 64"
    using advance_range[OF cb(3,4)] by (simp_all add: read_bdot_proj read_field_proj)
  have Bt2: "finite_buffer (g_Bt ?st2)"
    unfolding read_bdot_Bt[OF mi] freq_ten k1
    by (intro finite_buffer_apply(1) pk finite_buffer_slot_upd finite_vec_scale finite_vec_sub
          finite_slot B1 mi prev_slot_range[OF mi])
       (simp_all add: read_field_proj fb advance_range[OF cb(3,4)])
  have old: "slot (g_Bt ?st2) (bdot_index st) = slot (g_Bt st) (bdot_index st)"
    unfolding read_bdot_Bt[OF mi]
    using prev_slot_advance(2)[OF bi]
    by (simp add: read_field_proj apply_slot(3) slot_upd_other)
  have pj: "prev_slot (bdot_index ?st2) = bdot_index st"
    using prev_slot_advance(1)[OF bi] by (simp add: read_bdot_proj read_field_proj)
  \<comment> \<open>the angular velocity\<close>
  have "finite_vec (slot (g_Bt st) (bdot_index st))"
    using bi bi64 by (intro finite_slot fb) simp_all
  then obtain m where m: "NORM2 (slot (g_Bt st) (bdot_index st)) = Fin m" "m \<noteq> 0"
    using nn finite_norm2[of "slot (g_Bt st) (bdot_index st)"] by (auto simp add: isfinite_iff)
  have W3: "finite_buffer (g_W ?st3)"
    unfolding getOmega_W[OF o bj] pj old m freq_ten
    by (intro finite_buffer_apply(2) finite_buffer_slot_upd finite_vec_scale_div[OF m(2)]
          finite_vec_cross finite_slot Bt2 bj)
       (simp_all add: read_bdot_proj read_field_proj pk fb advance_range[OF cb(7,8)] old[symmetric]
          finite_slot[OF Bt2] bi bi64)
  \<comment> \<open>the sun vector\<close>
  have S4: "g_S ?st4 = slot_upd (g_S st) ((sol_index st + 1) smod SH_BUFFER_SIZE) null_vec"
    by (subst getSVec_dark)
       (simp_all add: getOmega_proj read_bdot_proj read_field_proj dark_css[OF dark])
  have fS: "finite_buffer (g_S ?st4)"
    unfolding S4 by (intro finite_buffer_slot_upd fb) (simp add: null_vec_def finite_vec_def)
  \<comment> \<open>the checks\<close>
  have i4: "0 \<le> mag_index ?st4" "mag_index ?st4 < 64" "0 \<le> omega_index ?st4" "omega_index ?st4 < 64"
    "0 \<le> sol_index ?st4" "sol_index ?st4 < 64"
    using c4d cur_nonneg[of 1 "n + 1"] cur_nonneg[of 2 "n + 1"] cur_nonneg[of 3 "n + 1"]
      cur_bounds(2)[of 1 "n + 1"] cur_bounds(2)[of 2 "n + 1"] cur_bounds(2)[of 3 "n + 1"] n2
    by simp_all
  have gB: "g_B ?st4 = g_B ?st1" "g_W ?st4 = g_W ?st3" "g_Bt ?st4 = g_Bt ?st2"
    by (simp_all add: getSVec_proj getOmega_proj read_bdot_proj)
  have "\<not> has_nan (slot (g_B ?st4) (mag_index ?st4))"
    unfolding gB by (intro finite_no_nan finite_slot B1 i4)
  moreover have "\<not> has_nan (slot (g_W ?st4) (omega_index ?st4))"
    unfolding gB by (intro finite_no_nan finite_slot W3 i4)
  moreover have "\<not> has_nan (slot (g_S ?st4) (sol_index ?st4))"
    by (intro finite_no_nan finite_slot fS i4)
  ultimately have "nan_check 1 ?st4 \<noteq> - 1" by (simp add: nan_check_iff)
  then show "fst (readSensors q s st) = 1" using nan_check_codes[of ?st4] by (simp add: r)
  show "finite_buffer (g_B (snd (readSensors q s st)))" using B1 by (simp add: r gB)
  show "finite_buffer (g_Bt (snd (readSensors q s st)))" using Bt2 by (simp add: r gB)
  show "finite_buffer (g_W (snd (readSensors q s st)))" using W3 by (simp add: r gB)
  show "finite_buffer (g_S (snd (readSensors q s st)))" using fS by (simp add: r)
  show "bessel_coeff (snd (readSensors q s st)) = bessel_coeff st"
    by (simp add: r getSVec_proj getOmega_proj read_bdot_proj read_field_proj)
  show "slot (g_Bt (snd (readSensors q s st))) (bdot_index st) = slot (g_Bt st) (bdot_index st)"
    using old by (simp add: r gB)
qed

section \<open>Three cycles from program start\<close>

lemma nonneg_finite_array: "nonneg_array arr \<Longrightarrow> finite_array arr"
  by (auto simp add: nonneg_array_def finite_array_def)

lemma nonneg_finite_buffer: "nonneg_buffer b \<Longrightarrow> finite_buffer b"
  by (simp add: nonneg_buffer_def finite_buffer_def nonneg_finite_array)

lemma nonneg_array_upd: "nonneg_array arr \<Longrightarrow> 0 \<le> a \<Longrightarrow> nonneg_array (arr(i := Fin a))"
  by (simp add: nonneg_array_def)

lemma zero_buffer_nonneg: "nonneg_buffer (zero_buffer stray)"
  by (simp add: nonneg_buffer_def nonneg_array_def zero_buffer_def zeroed_def SH_BUFFER_SIZE_def)

lemma zero_buffer_slot: "0 \<le> i \<Longrightarrow> i < 64 \<Longrightarrow> slot (zero_buffer stray) i = null_vec"
  by (simp add: slot_def zero_buffer_def zeroed_def SH_BUFFER_SIZE_def null_vec_def)

lemma positive_vec_iff:
  "positive_vec v \<longleftrightarrow> (\<exists>x y z. 0 < x \<and> 0 < y \<and> 0 < z \<and> v = (Fin x, Fin y, Fin z))"
proof (cases v)
  case (fields a b c)
  show ?thesis unfolding fields positive_vec_def
    using positive_iff[of a] positive_iff[of b] positive_iff[of c] by auto
qed

lemma positive_finite_vec: "positive_vec v \<Longrightarrow> finite_vec v"
  by (auto simp add: positive_vec_iff finite_vec_iff)

lemma positive_norm2: "positive_vec v \<Longrightarrow> NORM2 v \<noteq> Fin 0"
proof -
  assume "positive_vec v"
  then obtain x y z where v: "0 < x" "0 < y" "0 < z" "v = (Fin x, Fin y, Fin z)"
    by (auto simp add: positive_vec_iff)
  have "0 < x * x + y * y + z * z" using v(1,2,3) by (intro add_pos_pos mult_pos_pos)
  then show ?thesis using v(4) by (simp add: NORM2_def)
qed

lemma positive_rate:
  "positive_vec u \<Longrightarrow> positive_vec (VECTOR_MIXED (\<lambda>c. fmul c (Fin 10)) (VECTOR_OP fsub u null_vec))"
  by (auto simp add: positive_vec_iff VECTOR_MIXED_def VECTOR_OP_def fsub_def null_vec_def)

text \<open>A positive sample stored in a buffer of non-negative values stays positive under the filter.\<close>

lemma positive_apply:
  assumes pk: "positive_kernel c" and idx: "0 \<le> i" "i < 64"
    and nb: "nonneg_buffer b" and pv: "positive_vec v"
  shows "positive_vec (slot (APPLY_DBESSEL c (slot_upd b i v) i) i)"
    and "nonneg_buffer (APPLY_DBESSEL c (slot_upd b i v) i)"
proof -
  obtain x y z where v: "0 < x" "0 < y" "0 < z" "v = (Fin x, Fin y, Fin z)"
    using pv by (auto simp add: positive_vec_iff)
  have nx: "nonneg_array ((x_arr b)(i := Fin x))" "nonneg_array ((y_arr b)(i := Fin y))"
    "nonneg_array ((z_arr b)(i := Fin z))"
    using nb v(1,2,3) by (simp_all add: nonneg_buffer_def nonneg_array_upd)
  obtain rx where rx: "0 < rx" "dfilterBessel c ((x_arr b)(i := Fin x)) i = Fin rx"
    using filter_positive[OF pk idx nx(1) _ v(1)] by auto
  obtain ry where ry: "0 < ry" "dfilterBessel c ((y_arr b)(i := Fin y)) i = Fin ry"
    using filter_positive[OF pk idx nx(2) _ v(2)] by auto
  obtain rz where rz: "0 < rz" "dfilterBessel c ((z_arr b)(i := Fin z)) i = Fin rz"
    using filter_positive[OF pk idx nx(3) _ v(3)] by auto
  show "positive_vec (slot (APPLY_DBESSEL c (slot_upd b i v) i) i)"
    using rx ry rz by (simp add: apply_slot v(4) slot_upd_arr positive_vec_iff)
  show "nonneg_buffer (APPLY_DBESSEL c (slot_upd b i v) i)"
    using nb rx ry rz
    by (simp add: nonneg_buffer_def apply_arr v(4) slot_upd_arr nonneg_array_upd less_imp_le)
qed

text \<open>The null vector stored in a buffer of zeros: the filter returns zero.\<close>

lemma null_apply:
  assumes pk: "positive_kernel c" and idx: "0 \<le> i" "i < 64"
  shows "slot (APPLY_DBESSEL c (slot_upd (zero_buffer stray) i null_vec) i) i = null_vec"
    and "nonneg_buffer (APPLY_DBESSEL c (slot_upd (zero_buffer stray) i null_vec) i)"
proof -
  have z: "dfilterBessel c ((zeroed stray)(i := Fin 0)) i = Fin 0"
    by (rule dc_gain_positive(1)[OF pk idx]) (simp add: zeroed_def SH_BUFFER_SIZE_def)
  show "slot (APPLY_DBESSEL c (slot_upd (zero_buffer stray) i null_vec) i) i = null_vec"
    by (simp add: apply_slot null_vec_def slot_upd_arr zero_buffer_def z)
  have "nonneg_array ((zeroed stray)(i := Fin 0))"
    using zero_buffer_nonneg[of stray] by (simp add: nonneg_buffer_def zero_buffer_def nonneg_array_upd)
  then show "nonneg_buffer (APPLY_DBESSEL c (slot_upd (zero_buffer stray) i null_vec) i)"
    by (simp add: nonneg_buffer_def apply_arr null_vec_def slot_upd_arr zero_buffer_def z
        nonneg_array_upd)
qed

lemma two_cycles:
  assumes pk: "positive_kernel K"
  shows "cursors_at 2 (snd (run q [sample_still, sample_dark] (init_acs stray K)))"
    and "nonneg_buffer (g_B (snd (run q [sample_still, sample_dark] (init_acs stray K))))"
    and "nonneg_buffer (g_Bt (snd (run q [sample_still, sample_dark] (init_acs stray K))))"
    and "g_W (snd (run q [sample_still, sample_dark] (init_acs stray K))) = zero_buffer stray"
    and "finite_buffer (g_S (snd (run q [sample_still, sample_dark] (init_acs stray K))))"
    and "bessel_coeff (snd (run q [sample_still, sample_dark] (init_acs stray K))) = K"
    and "positive_vec (slot (g_B (snd (run q [sample_still, sample_dark] (init_acs stray K)))) 1)"
    and "positive_vec (slot (g_Bt (snd (run q [sample_still, sample_dark] (init_acs stray K)))) 0)"
    and "fst (run q [sample_still, sample_dark] (init_acs stray K))
           = [1, nan_check 1 (snd (run q [sample_still, sample_dark] (init_acs stray K)))]"
proof -
  let ?st0 = "init_acs stray K"
  let ?st1 = "read_field q sample_still ?st0"
  let ?sf = "read_field q sample_dark ?st1"
  let ?sb = "read_bdot ?sf"
  let ?st2 = "getSVec q ?sb"
  have i0: "mag_index ?st0 = - 1" "bessel_coeff ?st0 = K" "g_B ?st0 = zero_buffer stray"
    "g_Bt ?st0 = zero_buffer stray" "g_W ?st0 = zero_buffer stray" "g_S ?st0 = zero_buffer stray"
    "bdot_index ?st0 = - 1" "sol_index ?st0 = - 1"
    by (simp_all add: init_acs_def)
  have r1: "readSensors q sample_still ?st0 = (1, ?st1)" by (rule first_cycle)
  have c1: "cursors_at 1 ?st1"
    using readSensors_cursors[OF _ init_cursors, of q sample_still stray K] by (simp add: r1)
  have m1: "mag_index ?st1 = 0" "bdot_index ?st1 = - 1" "sol_index ?st1 = - 1"
    using c1 by (simp_all add: cursors_at_def cur_def)
  have B1: "g_B ?st1 = APPLY_DBESSEL K (slot_upd (zero_buffer stray) 0 null_vec) 0"
    unfolding read_field_B i0 by (simp add: sample_still_def null_vec_def)
  have B1n: "nonneg_buffer (g_B ?st1)" and B1z: "slot (g_B ?st1) 0 = null_vec"
    unfolding B1 by (rule null_apply[OF pk]; simp)+
  have k1: "bessel_coeff ?st1 = K" "g_Bt ?st1 = zero_buffer stray" "g_W ?st1 = zero_buffer stray"
    "g_S ?st1 = zero_buffer stray"
    by (simp_all add: read_field_proj i0)
  have r2: "snd (readSensors q sample_dark ?st1) = ?st2" by (rule second_cycle[OF c1])
  have c2: "cursors_at 2 ?st2"
    using readSensors_cursors[OF _ c1, of q sample_dark] by (simp add: r2)
  have s1: "(0 + 1) smod SH_BUFFER_SIZE = 1" "(- 1 + 1) smod SH_BUFFER_SIZE = 0"
    by (simp_all add: SH_BUFFER_SIZE_def signed_modulo_int_def)
  have pd: "positive_vec (mag_measure sample_dark)"
    by (simp add: sample_dark_def positive_vec_def)
  have Bf: "g_B ?sf = APPLY_DBESSEL K (slot_upd (g_B ?st1) 1 (mag_measure sample_dark)) 1"
    unfolding read_field_B m1 k1 s1 ..
  have Bfp: "positive_vec (slot (g_B ?sf) 1)" and Bfn: "nonneg_buffer (g_B ?sf)"
    unfolding Bf by (rule positive_apply[OF pk _ _ B1n pd]; simp)+
  have Bf0: "slot (g_B ?sf) 0 = null_vec"
    unfolding Bf using B1z by (simp add: apply_slot(3) slot_upd_other)
  have mf: "mag_index ?sf = 1" "bessel_coeff ?sf = K" "g_Bt ?sf = zero_buffer stray"
    "bdot_index ?sf = - 1"
    by (simp_all add: read_field_proj i0 SH_BUFFER_SIZE_def signed_modulo_int_def)
  have p1: "prev_slot 1 = 0" by (simp add: prev_slot_def)
  have Bt: "g_Bt ?sb = APPLY_DBESSEL K (slot_upd (zero_buffer stray) 0
               (VECTOR_MIXED (\<lambda>c. fmul c (Fin 10)) (VECTOR_OP fsub (slot (g_B ?sf) 1) null_vec))) 0"
    by (subst read_bdot_Bt) (simp_all add: mf p1 Bf0 s1 freq_ten)
  have Btp: "positive_vec (slot (g_Bt ?sb) 0)" and Btn: "nonneg_buffer (g_Bt ?sb)"
    unfolding Bt by (rule positive_apply[OF pk _ _ zero_buffer_nonneg positive_rate[OF Bfp]]; simp)+
  have S2: "g_S ?st2 = slot_upd (zero_buffer stray) 0 null_vec"
    by (subst getSVec_dark)
       (simp_all add: read_bdot_proj read_field_proj dark_css sample_dark_def i0
          SH_BUFFER_SIZE_def signed_modulo_int_def)
  have run2: "run q [sample_still, sample_dark] ?st0
                = ([1, fst (readSensors q sample_dark ?st1)], ?st2)"
    using r2 by (simp add: r1 case_prod_beta)
  have e2: "\<not> (mag_index ?sf < 1 \<and> B_full ?sf = 0)" by (simp add: mf)
  have sk: "getOmega ?sb = ?sb"
    by (rule getOmega_skip) (simp add: bdot_cursors[OF _ c1] cur_def full_after_def)
  have st: "fst (readSensors q sample_dark ?st1) = nan_check 1 ?st2"
    by (simp add: readSensors_full[OF e2] sk)
  show "cursors_at 2 (snd (run q [sample_still, sample_dark] ?st0))" unfolding run2 snd_conv using c2 .
  show "nonneg_buffer (g_B (snd (run q [sample_still, sample_dark] ?st0)))"
    unfolding run2 snd_conv using Bfn by (simp add: getSVec_proj read_bdot_proj)
  show "nonneg_buffer (g_Bt (snd (run q [sample_still, sample_dark] ?st0)))"
    unfolding run2 snd_conv using Btn by (simp add: getSVec_proj)
  show "g_W (snd (run q [sample_still, sample_dark] ?st0)) = zero_buffer stray"
    unfolding run2 snd_conv by (simp add: getSVec_proj read_bdot_proj read_field_proj i0)
  show "finite_buffer (g_S (snd (run q [sample_still, sample_dark] ?st0)))"
    unfolding run2 snd_conv S2
    by (intro finite_buffer_slot_upd zero_buffer_finite) (simp add: null_vec_def finite_vec_def)
  show "bessel_coeff (snd (run q [sample_still, sample_dark] ?st0)) = K"
    unfolding run2 snd_conv by (simp add: getSVec_proj read_bdot_proj mf)
  show "positive_vec (slot (g_B (snd (run q [sample_still, sample_dark] ?st0))) 1)"
    unfolding run2 snd_conv using Bfp by (simp add: getSVec_proj read_bdot_proj)
  show "positive_vec (slot (g_Bt (snd (run q [sample_still, sample_dark] ?st0))) 0)"
    unfolding run2 snd_conv using Btp by (simp add: getSVec_proj)
  show "fst (run q [sample_still, sample_dark] ?st0)
          = [1, nan_check 1 (snd (run q [sample_still, sample_dark] ?st0))]"
    unfolding run2 snd_conv fst_conv by (simp add: st)
qed

lemma main_kernel_positive: "positive_kernel main_kernel"
  unfolding main_kernel_def BESSEL_FREQ_CUTOFF_def by (rule calculateBessel_positive) simp_all

text \<open>
  C4 as stated fails: over three cycles from program start on the kernel of \<^verbatim>\<open>main\<close>,
  the first cycle (no history yet) and the third (a complete cycle on finite data)
  return the same status 1, so the return value does not tell them apart.
\<close>

theorem same_status_without_history:
  "fst (run q2isqrt_sqrt [sample_still, sample_dark, sample_dark] (init_acs no_stray main_kernel))
     = [1, 1, 1]"
proof -
  define st2 where "st2 = snd (run q2isqrt_sqrt [sample_still, sample_dark] (init_acs no_stray main_kernel))"
  note t = two_cycles[OF main_kernel_positive, of q2isqrt_sqrt no_stray, folded st2_def]
  have i2: "mag_index st2 = 1" "omega_index st2 = - 1" "sol_index st2 = 0" "bdot_index st2 = 0"
    using t(1) by (simp_all add: cursors_at_def cur_def)
  have "\<not> has_nan (slot (g_B st2) 1)"
    by (intro finite_no_nan positive_finite_vec t(7))
  moreover have "\<not> has_nan (slot (g_W st2) (- 1))"
    by (simp add: t(4) slot_def zero_buffer_def zeroed_def no_stray_def has_nan_def)
  moreover have "\<not> has_nan (slot (g_S st2) 0)"
    by (intro finite_no_nan finite_slot t(5)) simp_all
  ultimately have "nan_check 1 st2 \<noteq> - 1" by (simp add: nan_check_iff i2)
  then have s2: "nan_check 1 st2 = 1" using nan_check_codes[of st2] by simp
  have nn: "NORM2 (slot (g_Bt st2) (bdot_index st2)) \<noteq> Fin 0"
    unfolding i2 by (rule positive_norm2[OF t(8)])
  have s3: "fst (readSensors q2isqrt_sqrt sample_dark st2) = 1"
    by (rule clean_cycle(1)[OF _ nonneg_finite_buffer[OF t(2)] nonneg_finite_buffer[OF t(3)] _
          t(5) t(1) _ _ _ _ _ nn])
       (simp_all add: t(6) main_kernel_positive t(4) zero_buffer_finite sample_dark_def finite_vec_def)
  have "run q2isqrt_sqrt ([sample_still, sample_dark] @ [sample_dark]) (init_acs no_stray main_kernel)
          = (fst (run q2isqrt_sqrt [sample_still, sample_dark] (init_acs no_stray main_kernel))
               @ [fst (readSensors q2isqrt_sqrt sample_dark st2)],
             snd (readSensors q2isqrt_sqrt sample_dark st2))"
    unfolding st2_def by (rule run_snoc)
  then show ?thesis unfolding t(9) s2 s3 by simp
qed

lemma filter_infinite_upd:
  assumes "positive_kernel c" "0 \<le> i" "i < 64" "finite_array a" "x = PInf \<or> x = NInf"
  shows "dfilterBessel c (a(i := x)) i = x" "ffilterBessel c (a(i := x)) i = x"
proof -
  have f: "\<And>j. 0 \<le> j \<Longrightarrow> j < 64 \<Longrightarrow> j \<noteq> i \<Longrightarrow> isfinite ((a(i := x)) j)"
    using assms(4) by (simp add: finite_array_def)
  have e: "(a(i := x)) i = x" by simp
  show "dfilterBessel c (a(i := x)) i = x" "ffilterBessel c (a(i := x)) i = x"
    by (rule filter_infinite[where arr="a(i := x)", OF assms(1,2,3) e assms(5) f]; assumption)+
qed

lemma filter_finite_upd:
  assumes "positive_kernel c" "0 \<le> i" "i < 64" "finite_array a"
  shows "\<exists>r. dfilterBessel c (a(i := Fin v)) i = Fin r" "\<exists>r. ffilterBessel c (a(i := Fin v)) i = Fin r"
  using filter_finite[OF assms(1,2,3) finite_array_upd[OF assms(4), of "Fin v" i]]
  by (simp_all add: isfinite_iff)

section \<open>A cycle on an infinite sample\<close>

lemma positive_slot_arr:
  assumes "positive_vec (slot b i)"
  shows "\<exists>x y z. 0 < x \<and> 0 < y \<and> 0 < z \<and> x_arr b i = Fin x \<and> y_arr b i = Fin y \<and> z_arr b i = Fin z"
  using assms by (auto simp add: positive_vec_iff slot_def)

lemma glare_cycle:
  assumes pk: "positive_kernel (bessel_coeff st)"
    and c2: "cursors_at 2 st"
    and fB: "finite_buffer (g_B st)" and fBt: "finite_buffer (g_Bt st)"
    and W0: "g_W st = zero_buffer stray"
    and pB: "positive_vec (slot (g_B st) 1)" and pBt: "positive_vec (slot (g_Bt st) 0)"
  shows "fst (readSensors q sample_glare st) = 1"
    and "mag_index (snd (readSensors q sample_glare st)) = 2"
    and "bdot_index (snd (readSensors q sample_glare st)) = 1"
    and "omega_index (snd (readSensors q sample_glare st)) = 0"
    and "x_arr (g_B (snd (readSensors q sample_glare st))) 2 = PInf"
    and "x_arr (g_Bt (snd (readSensors q sample_glare st))) 1 = PInf"
    and "y_arr (g_W (snd (readSensors q sample_glare st))) 0 = NInf"
    and "z_arr (g_W (snd (readSensors q sample_glare st))) 0 = PInf"
proof -
  let ?K = "bessel_coeff st"
  let ?st1 = "read_field q sample_glare st"
  let ?st2 = "read_bdot ?st1"
  let ?st3 = "getOmega ?st2"
  let ?st4 = "getSVec q ?st3"
  have i: "mag_index st = 1" "bdot_index st = 0" "omega_index st = - 1" "sol_index st = 0"
    using c2 by (simp_all add: cursors_at_def cur_def)
  have sm: "(1 + 1) smod SH_BUFFER_SIZE = 2" "(0 + 1) smod SH_BUFFER_SIZE = 1"
    "(1 + - 1) smod SH_BUFFER_SIZE = 0" "2 smod SH_BUFFER_SIZE = 2" "1 smod SH_BUFFER_SIZE = 1"
    "0 smod SH_BUFFER_SIZE = 0"
    by (simp_all add: SH_BUFFER_SIZE_def signed_modulo_int_def)
  have co: "computes_omega q sample_glare st" by (rule cursors_compute[OF _ c2]) simp
  then have e: "\<not> (mag_index ?st1 < 1 \<and> B_full ?st1 = 0)"
    and o: "\<not> (mag_index ?st2 < 2 \<and> B_full ?st2 = 0)"
    by (simp_all add: computes_omega_def Let_def)
  have r: "readSensors q sample_glare st = (nan_check 1 ?st4, ?st4)" by (rule readSensors_full[OF e])
  have c4: "cursors_at 3 ?st4" using readSensors_cursors[OF _ c2, of q sample_glare] by (simp add: r)
  have i4: "mag_index ?st4 = 2" "bdot_index ?st4 = 1" "omega_index ?st4 = 0" "sol_index ?st4 = 1"
    using c4 by (simp_all add: cursors_at_def cur_def)
  note fa = fB[unfolded finite_buffer_def] fBt[unfolded finite_buffer_def]
  \<comment> \<open>the field: slot 2 is written, slot 1 is the previous sample\<close>
  have B1: "g_B ?st1 = APPLY_DBESSEL ?K (slot_upd (g_B st) 2 (PInf, Fin 2, Fin 3)) 2"
    unfolding read_field_B i sm by (simp add: sample_glare_def)
  obtain rx ry rz where rp: "0 < rx" "0 < ry" "0 < rz"
    "x_arr (g_B st) 1 = Fin rx" "y_arr (g_B st) 1 = Fin ry" "z_arr (g_B st) 1 = Fin rz"
    using positive_slot_arr[OF pB] by blast
  have Bx: "x_arr (g_B ?st1) 2 = PInf"
    unfolding B1 using filter_infinite_upd(1)[OF pk _ _ conjunct1[OF fa(1)], of 2 PInf]
    by (simp add: apply_arr slot_upd_arr)
  obtain y2 where By: "y_arr (g_B ?st1) 2 = Fin y2"
    unfolding B1 using filter_finite_upd(1)[OF pk _ _ conjunct1[OF conjunct2[OF fa(1)]], of 2 2]
    by (auto simp add: apply_arr slot_upd_arr)
  obtain z2 where Bz: "z_arr (g_B ?st1) 2 = Fin z2"
    unfolding B1 using filter_finite_upd(1)[OF pk _ _ conjunct2[OF conjunct2[OF fa(1)]], of 2 3]
    by (auto simp add: apply_arr slot_upd_arr)
  have s2: "slot (g_B ?st1) 2 = (PInf, Fin y2, Fin z2)" by (simp add: slot_def Bx By Bz)
  have s1: "slot (g_B ?st1) 1 = (Fin rx, Fin ry, Fin rz)"
    unfolding B1 by (simp add: slot_def apply_arr slot_upd_arr rp)
  have m1: "mag_index ?st1 = 2" "bessel_coeff ?st1 = ?K" "g_Bt ?st1 = g_Bt st"
    "bdot_index ?st1 = 0" "g_W ?st1 = g_W st" "omega_index ?st1 = - 1"
    by (simp_all add: read_field_proj i sm)
  \<comment> \<open>the field rate: slot 1 is written, slot 0 is the previous sample\<close>
  have p2: "prev_slot 2 = 1" "prev_slot 1 = 0" by (simp_all add: prev_slot_def)
  have Bt: "g_Bt ?st2 = APPLY_DBESSEL ?K (slot_upd (g_Bt st) 1
               (PInf, Fin ((y2 - ry) * 10), Fin ((z2 - rz) * 10))) 1"
    by (subst read_bdot_Bt)
       (simp_all add: m1 p2 s1 s2 sm freq_ten VECTOR_MIXED_def VECTOR_OP_def fsub_def)
  obtain bx bz and b_y where bp: "0 < bx" "0 < b_y" "0 < bz"
    "x_arr (g_Bt st) 0 = Fin bx" "y_arr (g_Bt st) 0 = Fin b_y" "z_arr (g_Bt st) 0 = Fin bz"
    using positive_slot_arr[OF pBt] by blast
  have Btx: "x_arr (g_Bt ?st2) 1 = PInf"
    unfolding Bt using filter_infinite_upd(1)[OF pk _ _ conjunct1[OF fa(2)], of 1 PInf]
    by (simp add: apply_arr slot_upd_arr)
  obtain vy where Bty: "y_arr (g_Bt ?st2) 1 = Fin vy"
    unfolding Bt
    using filter_finite_upd(1)[OF pk _ _ conjunct1[OF conjunct2[OF fa(2)]], of 1 "(y2 - ry) * 10"]
    by (auto simp add: apply_arr slot_upd_arr)
  obtain vz where Btz: "z_arr (g_Bt ?st2) 1 = Fin vz"
    unfolding Bt
    using filter_finite_upd(1)[OF pk _ _ conjunct2[OF conjunct2[OF fa(2)]], of 1 "(z2 - rz) * 10"]
    by (auto simp add: apply_arr slot_upd_arr)
  have t1: "slot (g_Bt ?st2) 1 = (PInf, Fin vy, Fin vz)" by (simp add: slot_def Btx Bty Btz)
  have t0: "slot (g_Bt ?st2) 0 = (Fin bx, Fin b_y, Fin bz)"
    unfolding Bt by (simp add: slot_def apply_arr slot_upd_arr bp)
  have m2: "bdot_index ?st2 = 1" "bessel_coeff ?st2 = ?K" "g_W ?st2 = zero_buffer stray"
    "omega_index ?st2 = - 1"
    by (simp_all add: read_bdot_proj m1 sm W0)
  \<comment> \<open>the angular velocity: slot 0 is written\<close>
  have nz: "bx * bx + b_y * b_y + bz * bz \<noteq> 0" "\<not> bx * bx + b_y * b_y + bz * bz < 0"
    using add_pos_pos[OF add_pos_pos[OF mult_pos_pos[OF bp(1) bp(1)] mult_pos_pos[OF bp(2) bp(2)]]
        mult_pos_pos[OF bp(3) bp(3)]] by simp_all
  have cr: "VECTOR_MIXED (\<lambda>c. fdiv (fmul c freq_f) (NORM2 (Fin bx, Fin b_y, Fin bz)))
              (CROSS_PRODUCT (PInf, Fin vy, Fin vz) (Fin bx, Fin b_y, Fin bz))
            = (Fin ((vy * bz - vz * b_y) * 10 / (bx * bx + b_y * b_y + bz * bz)), NInf, PInf)"
    using bp(1,2,3) nz
    by (simp add: VECTOR_MIXED_def CROSS_PRODUCT_def NORM2_def fsub_def freq_ten)
  have W: "g_W ?st3 = APPLY_FBESSEL ?K (slot_upd (zero_buffer stray) 0
              (Fin ((vy * bz - vz * b_y) * 10 / (bx * bx + b_y * b_y + bz * bz)), NInf, PInf)) 0"
    by (subst getOmega_W[OF o]) (simp_all add: m2 p2 t0 t1 sm cr)
  have fz: "finite_array (zeroed stray)" by (simp add: finite_array_def zeroed_def SH_BUFFER_SIZE_def)
  have Wy: "y_arr (g_W ?st3) 0 = NInf"
    unfolding W using filter_infinite_upd(2)[OF pk _ _ fz, of 0 NInf]
    by (simp add: apply_arr slot_upd_arr zero_buffer_def)
  have Wz: "z_arr (g_W ?st3) 0 = PInf"
    unfolding W using filter_infinite_upd(2)[OF pk _ _ fz, of 0 PInf]
    by (simp add: apply_arr slot_upd_arr zero_buffer_def)
  obtain wx where Wx: "x_arr (g_W ?st3) 0 = Fin wx"
    unfolding W
    using filter_finite_upd(2)[OF pk _ _ fz, of 0 "(vy * bz - vz * b_y) * 10 / (bx * bx + b_y * b_y + bz * bz)"]
    by (auto simp add: apply_arr slot_upd_arr zero_buffer_def)
  \<comment> \<open>the sun vector and the checks\<close>
  have S4: "slot (g_S ?st4) 1 = null_vec"
    by (subst getSVec_dark)
       (simp_all add: getOmega_proj read_bdot_proj read_field_proj dark_css sample_glare_def i sm
          slot_slot_upd)
  have g4: "g_B ?st4 = g_B ?st1" "g_W ?st4 = g_W ?st3" "g_Bt ?st4 = g_Bt ?st2"
    by (simp_all add: getSVec_proj getOmega_proj read_bdot_proj)
  have S4a: "x_arr (g_S ?st4) 1 = Fin 0" "y_arr (g_S ?st4) 1 = Fin 0" "z_arr (g_S ?st4) 1 = Fin 0"
    using S4 by (simp_all add: slot_def null_vec_def)
  have "nan_check 1 ?st4 \<noteq> - 1"
    by (simp add: S4a nan_check_iff i4 g4 S4 has_nan_def slot_def Bx By Bz Wx Wy Wz null_vec_def)
  then show "fst (readSensors q sample_glare st) = 1" using nan_check_codes[of ?st4] by (simp add: r)
  show "mag_index (snd (readSensors q sample_glare st)) = 2"
    "bdot_index (snd (readSensors q sample_glare st)) = 1"
    "omega_index (snd (readSensors q sample_glare st)) = 0"
    by (simp_all add: r i4)
  show "x_arr (g_B (snd (readSensors q sample_glare st))) 2 = PInf" by (simp add: r g4 Bx)
  show "x_arr (g_Bt (snd (readSensors q sample_glare st))) 1 = PInf" by (simp add: r g4 Btx)
  show "y_arr (g_W (snd (readSensors q sample_glare st))) 0 = NInf" by (simp add: r g4 Wy)
  show "z_arr (g_W (snd (readSensors q sample_glare st))) 0 = PInf" by (simp add: r g4 Wz)
qed

text \<open>
  C2 as stated fails: the check is \<^verbatim>\<open>isnan\<close>, which an infinite value passes. In the third
  cycle from program start, on the kernel of \<^verbatim>\<open>main\<close>, a magnetometer sample with an infinite
  component leaves \<open>+Inf\<close> in the freshly written field and field-rate slots and \<open>-Inf\<close>
  and \<open>+Inf\<close> in the freshly written angular-velocity slot, and the cycle returns the
  success status 1.
\<close>

theorem infinite_components_pass:
  "(case run q2isqrt_sqrt [sample_still, sample_dark, sample_glare] (init_acs no_stray main_kernel) of
      (codes, st) \<Rightarrow>
        codes = [1, 1, 1] \<and>
        x_arr (g_B st) (mag_index st) = PInf \<and> \<not> isfinite (x_arr (g_B st) (mag_index st)) \<and>
        x_arr (g_Bt st) (bdot_index st) = PInf \<and>
        y_arr (g_W st) (omega_index st) = NInf \<and>
        z_arr (g_W st) (omega_index st) = PInf)"
proof -
  define st2 where "st2 = snd (run q2isqrt_sqrt [sample_still, sample_dark] (init_acs no_stray main_kernel))"
  note t = two_cycles[OF main_kernel_positive, of q2isqrt_sqrt no_stray, folded st2_def]
  have i2: "mag_index st2 = 1" "omega_index st2 = - 1" "sol_index st2 = 0" "bdot_index st2 = 0"
    using t(1) by (simp_all add: cursors_at_def cur_def)
  have "\<not> has_nan (slot (g_B st2) 1)"
    by (intro finite_no_nan positive_finite_vec t(7))
  moreover have "\<not> has_nan (slot (g_W st2) (- 1))"
    by (simp add: t(4) slot_def zero_buffer_def zeroed_def no_stray_def has_nan_def)
  moreover have "\<not> has_nan (slot (g_S st2) 0)"
    by (intro finite_no_nan finite_slot t(5)) simp_all
  ultimately have "nan_check 1 st2 \<noteq> - 1" by (simp add: nan_check_iff i2)
  then have s2: "nan_check 1 st2 = 1" using nan_check_codes[of st2] by simp
  have pk: "positive_kernel (bessel_coeff st2)" by (simp add: t(6) main_kernel_positive)
  note g = glare_cycle[OF pk t(1) nonneg_finite_buffer[OF t(2)] nonneg_finite_buffer[OF t(3)]
      t(4) t(7) t(8), of q2isqrt_sqrt]
  have "run q2isqrt_sqrt ([sample_still, sample_dark] @ [sample_glare]) (init_acs no_stray main_kernel)
          = (fst (run q2isqrt_sqrt [sample_still, sample_dark] (init_acs no_stray main_kernel))
               @ [fst (readSensors q2isqrt_sqrt sample_glare st2)],
             snd (readSensors q2isqrt_sqrt sample_glare st2))"
    unfolding st2_def by (rule run_snoc)
  then have "run q2isqrt_sqrt [sample_still, sample_dark, sample_glare] (init_acs no_stray main_kernel)
          = ([1, 1, 1], snd (readSensors q2isqrt_sqrt sample_glare st2))"
    by (simp only: t(9) s2 g(1) append.simps)
  then show ?thesis by (simp add: g)
qed

section \<open>The slots a cycle reads\<close>

lemma data_reads_append: "data_reads (a @ b) = data_reads a @ data_reads b"
  by (induction a rule: data_reads.induct) simp_all


lemma walk_trace_any:
  "snd (bessel_walk c arr index i k v s tr) = snd (bessel_walk c arr' index i k v' s' tr)"
proof (induction "nat (65 - k)" arbitrary: i k v s v' s' tr rule: less_induct)
  case less
  show ?case
  proof (cases "prev_slot i = index")
    case True
    show ?thesis by (simp add: walk_back[OF True])
  next
    case False
    show ?thesis
    proof (cases "flt (c (k + 1)) BESSEL_MIN_THRESHOLD \<or> k + 1 > SH_BUFFER_SIZE")
      case True
      show ?thesis by (simp add: walk_stop[where c=c and k=k, OF False True])
    next
      case nx: False
      then have a: "\<not> flt (c (k + 1)) BESSEL_MIN_THRESHOLD" and b: "k + 1 \<le> SH_BUFFER_SIZE"
        by auto
      have m: "nat (65 - (k + 1)) < nat (65 - k)" using b by (simp add: SH_BUFFER_SIZE_def)
      show ?thesis
        unfolding walk_more[where c=c and k=k, OF False a b] by (rule less[OF m])
    qed
  qed
qed


lemma walk_reads_any:
  "data_reads (snd (bessel_walk c arr index index 0 (Fin 0) (Fin 0) [])) = walk_reads c index"
  unfolding walk_reads_def by (rule arg_cong[OF walk_trace_any])















lemma cycle_reads_check:
  assumes "\<not> (mag_index (read_field q s st) < 1 \<and> B_full (read_field q s st) = 0)"
  shows "set (check_reads (snd (readSensors q s st))) \<subseteq> set (cycle_reads q s st)"
  unfolding readSensors_full[OF assms] cycle_reads_def Let_def if_not_P[OF assms] by auto

text \<open>
  The second cycle is outside \<open>reads_in_bounds\<close> for its final tests: \<^verbatim>\<open>getOmega\<close>
  returns at its guard, \<open>omega_index\<close> is still \<open>-1\<close>, and the chain of tests reads
  \<open>x_g_W[-1]\<close>, the memory before the array.
\<close>

lemma second_cycle_check_read:
  "(BufW, - 1) \<in> set (cycle_reads q2isqrt_sqrt sample_dark
                        (snd (run q2isqrt_sqrt [sample_still] (init_acs no_stray main_kernel))))"
proof -
  define st1 where "st1 = snd (run q2isqrt_sqrt [sample_still] (init_acs no_stray main_kernel))"
  define st2 where "st2 = snd (run q2isqrt_sqrt [sample_still, sample_dark] (init_acs no_stray main_kernel))"
  note t = two_cycles[OF main_kernel_positive, of q2isqrt_sqrt no_stray, folded st2_def]
  have "run q2isqrt_sqrt ([sample_still] @ [sample_dark]) (init_acs no_stray main_kernel)
          = (fst (run q2isqrt_sqrt [sample_still] (init_acs no_stray main_kernel))
               @ [fst (readSensors q2isqrt_sqrt sample_dark st1)],
             snd (readSensors q2isqrt_sqrt sample_dark st1))"
    unfolding st1_def by (rule run_snoc)
  then have s2: "snd (readSensors q2isqrt_sqrt sample_dark st1) = st2"
    unfolding st2_def by simp
  have c1: "cursors_at 1 st1"
    using run_cursors[where q=q2isqrt_sqrt and ss="[sample_still]" and stray=no_stray
        and coeffs=main_kernel]
    by (simp add: st1_def)
  have "mag_index (read_field q2isqrt_sqrt sample_dark st1) = cur 1 (1 + 1)"
    by (rule field_cursors(1)[OF _ c1]) simp
  then have ne: "\<not> (mag_index (read_field q2isqrt_sqrt sample_dark st1) < 1
                   \<and> B_full (read_field q2isqrt_sqrt sample_dark st1) = 0)"
    by (simp add: cur_def)
  have i2: "mag_index st2 = 1" "omega_index st2 = - 1" "sol_index st2 = 0"
    using t(1) by (simp_all add: cursors_at_def cur_def)
  have "\<not> has_nan (slot (g_B st2) 1)"
    by (intro finite_no_nan positive_finite_vec t(7))
  moreover have "\<not> has_nan (slot (g_W st2) (- 1))"
    by (simp add: t(4) slot_def zero_buffer_def zeroed_def no_stray_def has_nan_def)
  ultimately have "check_reads st2 = [(BufB, 1), (BufW, - 1), (BufS, 0)]"
    by (simp add: check_reads_def i2)
  then have "(BufW, - 1) \<in> set (check_reads (snd (readSensors q2isqrt_sqrt sample_dark st1)))"
    unfolding s2 by simp
  then have "(BufW, - 1) \<in> set (cycle_reads q2isqrt_sqrt sample_dark st1)"
    using cycle_reads_check[OF ne] by blast
  then show ?thesis unfolding st1_def .
qed

section \<open>The status codes and the first samples\<close>

lemma pair_state_cycle:
  assumes dark: "css_x s = Fin 0" "css_y s = Fin 0" "css_z s = Fin 0"
  shows "computes_omega q s bdot_pair_state"
    and "slot (g_B (snd (readSensors q s bdot_pair_state))) (mag_index (snd (readSensors q s bdot_pair_state)))
           = mag_measure s"
    and "slot (g_W (snd (readSensors q s bdot_pair_state))) (omega_index (snd (readSensors q s bdot_pair_state)))
           = VECTOR_MIXED (\<lambda>c. fdiv (fmul c (Fin 10)) (Fin 1))
               (CROSS_PRODUCT (VECTOR_MIXED (\<lambda>c. fmul c (Fin 10)) (VECTOR_OP fsub (mag_measure s) null_vec))
                              (Fin 1, Fin 0, Fin 0))"
    and "slot (g_S (snd (readSensors q s bdot_pair_state))) (sol_index (snd (readSensors q s bdot_pair_state)))
           = null_vec"
proof -
  let ?st = bdot_pair_state
  let ?st1 = "read_field q s ?st"
  let ?st2 = "read_bdot ?st1"
  let ?st3 = "getOmega ?st2"
  let ?st4 = "getSVec q ?st3"
  have k: "bessel_coeff ?st 0 = Fin 1" "bessel_coeff ?st 1 = Fin 0"
    by (simp_all add: bdot_pair_state_def init_acs_def identity_kernel_def)
  have i0: "mag_index ?st = 2" "bdot_index ?st = 1" "omega_index ?st = - 1" "sol_index ?st = - 1"
    "B_full ?st = 0"
    by (simp_all add: bdot_pair_state_def init_acs_def)
  have sm: "(2 + 1) smod SH_BUFFER_SIZE = 3" "(1 + 1) smod SH_BUFFER_SIZE = 2"
    "(1 + - 1) smod SH_BUFFER_SIZE = 0" "(- 1 + 1) smod SH_BUFFER_SIZE = 0"
    "3 smod SH_BUFFER_SIZE = 3" "2 smod SH_BUFFER_SIZE = 2" "0 smod SH_BUFFER_SIZE = 0"
    by (simp_all add: SH_BUFFER_SIZE_def signed_modulo_int_def)
  show co: "computes_omega q s ?st"
    by (simp add: computes_omega_def Let_def read_bdot_proj read_field_proj i0
        SH_BUFFER_SIZE_def signed_modulo_int_def)
  then have e: "\<not> (mag_index ?st1 < 1 \<and> B_full ?st1 = 0)"
    and o: "\<not> (mag_index ?st2 < 2 \<and> B_full ?st2 = 0)"
    by (simp_all add: computes_omega_def Let_def)
  have r: "snd (readSensors q s ?st) = ?st4" by (simp add: readSensors_full[OF e])
  have i4: "mag_index ?st4 = 3" "omega_index ?st4 = 0" "sol_index ?st4 = 0"
    using o by (simp_all add: getSVec_proj getOmega_proj read_bdot_proj read_field_proj i0 sm)
  have B1: "g_B ?st1 = slot_upd (g_B ?st) 3 (mag_measure s)"
    unfolding read_field_B i0 sm by (rule apply_identity(2)[OF k])
  have B0: "slot (g_B ?st) 2 = null_vec"
    by (simp add: bdot_pair_state_def init_acs_def zero_buffer_slot)
  have m1: "mag_index ?st1 = 3" "bdot_index ?st1 = 1" "bessel_coeff ?st1 = bessel_coeff ?st"
    "g_Bt ?st1 = g_Bt ?st" "omega_index ?st1 = - 1" "g_W ?st1 = g_W ?st"
    by (simp_all add: read_field_proj i0 sm)
  have p: "prev_slot 3 = 2" "prev_slot 2 = 1" by (simp_all add: prev_slot_def)
  have Bt: "g_Bt ?st2 = slot_upd (g_Bt ?st) 2
              (VECTOR_MIXED (\<lambda>c. fmul c (Fin 10)) (VECTOR_OP fsub (mag_measure s) null_vec))"
    by (subst read_bdot_Bt)
       (simp_all add: m1 sm p B1 slot_slot_upd slot_upd_other B0 freq_ten apply_identity(2)[OF k])
  have g1: "slot (g_Bt ?st) 1 = (Fin 1, Fin 0, Fin 0)"
    by (simp add: bdot_pair_state_def slot_def slot_upd_def)
  have m2: "bdot_index ?st2 = 2" "omega_index ?st2 = - 1" "bessel_coeff ?st2 = bessel_coeff ?st"
    by (simp_all add: read_bdot_proj m1 sm)
  have W: "g_W ?st3 = slot_upd (g_W ?st2) 0
             (VECTOR_MIXED (\<lambda>c. fdiv (fmul c (Fin 10)) (Fin 1))
               (CROSS_PRODUCT (VECTOR_MIXED (\<lambda>c. fmul c (Fin 10)) (VECTOR_OP fsub (mag_measure s) null_vec))
                              (Fin 1, Fin 0, Fin 0)))"
    by (subst getOmega_W[OF o])
       (simp_all add: m2 sm p Bt slot_slot_upd slot_upd_other g1 freq_ten NORM2_def
          apply_identity(1)[OF k])
  have S4: "slot (g_S ?st4) 0 = null_vec"
    by (subst getSVec_dark)
       (simp_all add: getOmega_proj read_bdot_proj read_field_proj dark_css[OF dark] i0 sm
          slot_slot_upd)
  show "slot (g_B (snd (readSensors q s ?st))) (mag_index (snd (readSensors q s ?st))) = mag_measure s"
    unfolding r i4 by (simp add: getSVec_proj getOmega_proj read_bdot_proj B1 slot_slot_upd)
  show "slot (g_W (snd (readSensors q s ?st))) (omega_index (snd (readSensors q s ?st)))
           = VECTOR_MIXED (\<lambda>c. fdiv (fmul c (Fin 10)) (Fin 1))
               (CROSS_PRODUCT (VECTOR_MIXED (\<lambda>c. fmul c (Fin 10)) (VECTOR_OP fsub (mag_measure s) null_vec))
                              (Fin 1, Fin 0, Fin 0))"
    unfolding r i4 by (simp add: getSVec_proj W slot_slot_upd)
  show "slot (g_S (snd (readSensors q s ?st))) (sol_index (snd (readSensors q s ?st))) = null_vec"
    unfolding r i4 by (rule S4)
qed

text \<open>
  C4, as the code has it. \<^verbatim>\<open>readSensors\<close> returns one of two values, 1 or -1. A cycle
  that stops for lack of history (the guard \<open>mag_index < 1 && B_full == 0\<close> holds after
  the field is stored) returns 1 and does nothing beyond storing the field. A cycle that
  computes the angular velocity returns -1 exactly when a component of the field slot,
  of the angular-velocity slot or of the sun-vector slot at the cursors is a NaN, and 1
  exactly when none is: the value 1 is shared by the cycle without history and the
  cycle without NaN.
\<close>

theorem status_two_codes:
  "(fst (readSensors q s st) = 1 \<or> fst (readSensors q s st) = - 1) \<and>
   (mag_index (read_field q s st) < 1 \<and> B_full (read_field q s st) = 0
      \<longrightarrow> readSensors q s st = (1, read_field q s st)) \<and>
   (computes_omega q s st \<longrightarrow>
      (fst (readSensors q s st) = - 1 \<longleftrightarrow>
         has_nan (slot (g_B (snd (readSensors q s st))) (mag_index (snd (readSensors q s st)))) \<or>
         has_nan (slot (g_W (snd (readSensors q s st))) (omega_index (snd (readSensors q s st)))) \<or>
         has_nan (slot (g_S (snd (readSensors q s st))) (sol_index (snd (readSensors q s st))))) \<and>
      (fst (readSensors q s st) = 1 \<longleftrightarrow>
         \<not> has_nan (slot (g_B (snd (readSensors q s st))) (mag_index (snd (readSensors q s st)))) \<and>
         \<not> has_nan (slot (g_W (snd (readSensors q s st))) (omega_index (snd (readSensors q s st)))) \<and>
         \<not> has_nan (slot (g_S (snd (readSensors q s st))) (sol_index (snd (readSensors q s st))))))"
proof (cases "mag_index (read_field q s st) < 1 \<and> B_full (read_field q s st) = 0")
  case True
  then have "\<not> computes_omega q s st" by (simp add: computes_omega_def Let_def)
  then show ?thesis using True by (simp add: readSensors_early)
next
  case False
  let ?f = "getSVec q (getOmega (read_bdot (read_field q s st)))"
  have r: "readSensors q s st = (nan_check 1 ?f, ?f)" by (rule readSensors_full[OF False])
  have n1: "nan_check 1 ?f = 1 \<longleftrightarrow> nan_check 1 ?f \<noteq> - 1"
    using nan_check_codes[of ?f] by auto
  show ?thesis
    unfolding r fst_conv snd_conv n1 nan_check_iff using False nan_check_codes[of ?f] by auto
qed

text \<open>
  The first cycle after program start stops at the guard and returns 1. In the state
  with two field-rate samples, a cycle on a finite sample returns 1 and a cycle on a
  sample with a NaN returns -1.
\<close>

theorem status_two_codes_witness:
  "(mag_index (read_field q2isqrt_sqrt sample_dark (init_acs no_stray main_kernel)) < 1 \<and>
    B_full (read_field q2isqrt_sqrt sample_dark (init_acs no_stray main_kernel)) = 0 \<and>
    fst (readSensors q2isqrt_sqrt sample_dark (init_acs no_stray main_kernel)) = 1) \<and>
   (computes_omega q2isqrt_sqrt sample_dark bdot_pair_state \<and>
    fst (readSensors q2isqrt_sqrt sample_dark bdot_pair_state) = 1) \<and>
   (computes_omega q2isqrt_sqrt sample_nan bdot_pair_state \<and>
    fst (readSensors q2isqrt_sqrt sample_nan bdot_pair_state) = - 1)"
proof -
  have e: "mag_index (read_field q2isqrt_sqrt sample_dark (init_acs no_stray main_kernel)) < 1 \<and>
        B_full (read_field q2isqrt_sqrt sample_dark (init_acs no_stray main_kernel)) = 0"
    using field_cursors[OF _ init_cursors, of q2isqrt_sqrt sample_dark no_stray main_kernel]
    by (simp add: cur_def full_after_def)
  have 1: "fst (readSensors q2isqrt_sqrt sample_dark (init_acs no_stray main_kernel)) = 1"
    using status_two_codes[of q2isqrt_sqrt sample_dark "init_acs no_stray main_kernel"] e
    by simp
  note d = pair_state_cycle[of sample_dark q2isqrt_sqrt]
  have dk: "css_x sample_dark = Fin 0" "css_y sample_dark = Fin 0" "css_z sample_dark = Fin 0"
    by (simp_all add: sample_dark_def)
  have 2: "fst (readSensors q2isqrt_sqrt sample_dark bdot_pair_state) = 1"
    using status_two_codes[of q2isqrt_sqrt sample_dark bdot_pair_state] d(1)[OF dk]
    unfolding d(2)[OF dk] d(3)[OF dk] d(4)[OF dk]
    by (simp add: has_nan_def sample_dark_def null_vec_def VECTOR_MIXED_def VECTOR_OP_def
        CROSS_PRODUCT_def fsub_def)
  note n = pair_state_cycle[of sample_nan q2isqrt_sqrt]
  have nk: "css_x sample_nan = Fin 0" "css_y sample_nan = Fin 0" "css_z sample_nan = Fin 0"
    by (simp_all add: sample_nan_def)
  have 3: "fst (readSensors q2isqrt_sqrt sample_nan bdot_pair_state) = - 1"
    using status_two_codes[of q2isqrt_sqrt sample_nan bdot_pair_state] n(1)[OF nk]
    unfolding n(2)[OF nk]
    by (simp add: has_nan_def sample_nan_def)
  show ?thesis using e 1 2 3 d(1)[OF dk] n(1)[OF nk] by simp
qed

lemma read_css_at:
  "read_css s css 0 = css_x s" "read_css s css 1 = fneg (css_x s)"
  "read_css s css 2 = css_y s" "read_css s css 3 = fneg (css_y s)"
  "read_css s css 4 = css_z s" "read_css s css 5 = fneg (css_z s)"
  "read_css s css 6 = fneg (css_z s)"
  by (simp_all add: read_css_def Let_def)

lemma getSVec_slot:
  "slot (g_S (getSVec q st)) ((sol_index st + 1) smod SH_BUFFER_SIZE) =
     (let v = (fsub (g_CSS st 0) (g_CSS st 1), fsub (g_CSS st 2) (g_CSS st 3),
               fsub (g_CSS st 4) (fmul (fadd (fadd (Fin 0) (g_CSS st 5)) (g_CSS st 6)) (Fin (1 / 2))))
      in if flt (NORM v) CSS_MIN_LUX_THRESHOLD then null_vec else NORMALIZE q v v)"
  by (simp add: getSVec_sun Let_def slot_slot_upd VECTOR_CLEAR_def)

text \<open>
  C5, as the code has it. From program start, for any three samples and any
  coefficients. Cycle 1 returns status 1, stores the filtered field sample in slot 0 of
  \<open>g_B\<close> and leaves the field-rate, sun-vector and angular-velocity buffers as they
  were. Cycle 2 stores the second field sample and is the first to produce a field-rate
  sample (the filtered difference of the two field samples times the frequency, in slot
  0 of \<open>g_Bt\<close>) and also the first to produce a sun vector (slot 0 of \<open>g_S\<close>: the
  null vector below the threshold, the normalised vector otherwise); it leaves the
  angular-velocity buffer untouched. Cycle 3 is the first to produce an
  angular-velocity sample (the filtered estimate from the two field-rate samples, in
  slot 0 of \<open>g_W\<close>).
\<close>

theorem first_three_cycles:
  "(case readSensors q s1 (init_acs stray coeffs) of (r1, st1) \<Rightarrow>
    case readSensors q s2 st1 of (r2, st2) \<Rightarrow>
    case readSensors q s3 st2 of (r3, st3) \<Rightarrow>
      r1 = 1 \<and>
      mag_index st1 = 0 \<and> bdot_index st1 = - 1 \<and> sol_index st1 = - 1 \<and> omega_index st1 = - 1 \<and>
      g_B st1 = APPLY_DBESSEL coeffs (slot_upd (zero_buffer stray) 0 (mag_measure s1)) 0 \<and>
      g_Bt st1 = g_Bt (init_acs stray coeffs) \<and> g_S st1 = g_S (init_acs stray coeffs) \<and>
      g_W st1 = g_W (init_acs stray coeffs) \<and>
      mag_index st2 = 1 \<and> bdot_index st2 = 0 \<and> sol_index st2 = 0 \<and> omega_index st2 = - 1 \<and>
      g_B st2 = APPLY_DBESSEL coeffs (slot_upd (g_B st1) 1 (mag_measure s2)) 1 \<and>
      g_Bt st2 = APPLY_DBESSEL coeffs
                   (slot_upd (g_Bt st1) 0
                      (VECTOR_MIXED (\<lambda>c. fmul c freq_d)
                         (VECTOR_OP fsub (slot (g_B st2) 1) (slot (g_B st2) 0)))) 0 \<and>
      slot (g_S st2) 0 =
        (let v = (fsub (css_x s2) (fneg (css_x s2)), fsub (css_y s2) (fneg (css_y s2)),
                  fsub (css_z s2)
                    (fmul (fadd (fadd (Fin 0) (fneg (css_z s2))) (fneg (css_z s2))) (Fin (1 / 2))))
         in if flt (NORM v) CSS_MIN_LUX_THRESHOLD then null_vec else NORMALIZE q v v) \<and>
      g_W st2 = g_W (init_acs stray coeffs) \<and>
      mag_index st3 = 2 \<and> bdot_index st3 = 1 \<and> sol_index st3 = 1 \<and> omega_index st3 = 0 \<and>
      g_W st3 = APPLY_FBESSEL coeffs
                  (slot_upd (g_W st2) 0
                     (VECTOR_MIXED (\<lambda>c. fdiv (fmul c freq_f) (NORM2 (slot (g_Bt st3) 0)))
                        (CROSS_PRODUCT (slot (g_Bt st3) 1) (slot (g_Bt st3) 0)))) 0)"
proof -
  let ?st0 = "init_acs stray coeffs"
  let ?st1 = "snd (readSensors q s1 ?st0)"
  let ?st2 = "snd (readSensors q s2 ?st1)"
  let ?st3 = "snd (readSensors q s3 ?st2)"
  have sm: "(- 1 + 1) smod SH_BUFFER_SIZE = 0" "(0 + 1) smod SH_BUFFER_SIZE = 1"
    "(1 + - 1) smod SH_BUFFER_SIZE = 0" "(1 + 1) smod SH_BUFFER_SIZE = 2"
    "0 smod SH_BUFFER_SIZE = 0" "1 smod SH_BUFFER_SIZE = 1" "2 smod SH_BUFFER_SIZE = 2"
    by (simp_all add: SH_BUFFER_SIZE_def signed_modulo_int_def)
  have p: "prev_slot 1 = 0" by (simp add: prev_slot_def)
  have c1: "cursors_at 1 ?st1" using readSensors_cursors[OF _ init_cursors, of q s1 stray coeffs] by simp
  have c2: "cursors_at 2 ?st2" using readSensors_cursors[OF _ c1, of q s2] by simp
  have c3: "cursors_at 3 ?st3" using readSensors_cursors[OF _ c2, of q s3] by simp
  have r1: "fst (readSensors q s1 ?st0) = 1" by (simp add: first_cycle)
  have u1: "g_Bt ?st1 = g_Bt ?st0" "g_S ?st1 = g_S ?st0" "g_W ?st1 = g_W ?st0"
    "bessel_coeff ?st1 = coeffs"
    by (simp_all add: first_cycle read_field_proj) (simp add: init_acs_def)
  have i1: "mag_index ?st1 = 0" "bdot_index ?st1 = - 1" "sol_index ?st1 = - 1" "omega_index ?st1 = - 1"
    using c1 by (simp_all add: cursors_at_def cur_def)
  have i2: "mag_index ?st2 = 1" "bdot_index ?st2 = 0" "sol_index ?st2 = 0" "omega_index ?st2 = - 1"
    using c2 by (simp_all add: cursors_at_def cur_def)
  \<comment> \<open>cycle 1\<close>
  have B1: "g_B ?st1 = APPLY_DBESSEL coeffs (slot_upd (zero_buffer stray) 0 (mag_measure s1)) 0"
    unfolding first_cycle snd_conv read_field_B by (simp add: init_acs_def sm)
  \<comment> \<open>cycle 2\<close>
  let ?f2 = "read_field q s2 ?st1"
  let ?b2 = "read_bdot ?f2"
  have s2: "?st2 = getSVec q ?b2" by (rule second_cycle[OF c1])
  have u2: "g_W ?st2 = g_W ?st0"
    by (simp add: s2 getSVec_proj read_bdot_proj read_field_proj u1)
  have B2: "g_B ?st2 = APPLY_DBESSEL coeffs (slot_upd (g_B ?st1) 1 (mag_measure s2)) 1"
    unfolding s2 by (simp add: getSVec_proj read_bdot_proj read_field_B i1 sm u1)
  have f2: "mag_index ?f2 = 1" "bdot_index ?f2 = - 1" "bessel_coeff ?f2 = coeffs" "g_Bt ?f2 = g_Bt ?st1"
    "g_B ?f2 = g_B ?st2"
    by (simp_all add: read_field_proj i1 sm u1 s2 getSVec_proj read_bdot_proj)
  have Bt2: "g_Bt ?st2 = APPLY_DBESSEL coeffs
                   (slot_upd (g_Bt ?st1) 0
                      (VECTOR_MIXED (\<lambda>c. fmul c freq_d)
                         (VECTOR_OP fsub (slot (g_B ?st2) 1) (slot (g_B ?st2) 0)))) 0"
  proof -
    have "g_Bt ?b2 = APPLY_DBESSEL coeffs
                   (slot_upd (g_Bt ?st1) 0
                      (VECTOR_MIXED (\<lambda>c. fmul c freq_d)
                         (VECTOR_OP fsub (slot (g_B ?f2) 1) (slot (g_B ?f2) 0)))) 0"
      by (subst read_bdot_Bt) (simp_all add: f2(1,2,3,4) sm p)
    moreover have "g_Bt ?st2 = g_Bt ?b2" by (simp add: s2 getSVec_proj)
    ultimately show ?thesis by (simp only: f2(5))
  qed
  have b2: "sol_index ?b2 = - 1" "g_CSS ?b2 = read_css s2 (g_CSS ?st1)"
    by (simp_all add: read_bdot_def Let_def read_field_proj i1)
  have S2: "slot (g_S ?st2) 0 =
        (let v = (fsub (css_x s2) (fneg (css_x s2)), fsub (css_y s2) (fneg (css_y s2)),
                  fsub (css_z s2)
                    (fmul (fadd (fadd (Fin 0) (fneg (css_z s2))) (fneg (css_z s2))) (Fin (1 / 2))))
         in if flt (NORM v) CSS_MIN_LUX_THRESHOLD then null_vec else NORMALIZE q v v)"
    using getSVec_slot[of q ?b2] unfolding s2 b2 read_css_at sm .
  \<comment> \<open>cycle 3\<close>
  let ?f3 = "read_field q s3 ?st2"
  let ?b3 = "read_bdot ?f3"
  have co: "computes_omega q s3 ?st2" by (rule cursors_compute[OF _ c2]) simp
  then have e: "\<not> (mag_index ?f3 < 1 \<and> B_full ?f3 = 0)"
    and o: "\<not> (mag_index ?b3 < 2 \<and> B_full ?b3 = 0)"
    by (simp_all add: computes_omega_def Let_def)
  have s3: "?st3 = getSVec q (getOmega ?b3)" by (simp add: readSensors_full[OF e])
  have k2: "bessel_coeff ?st2 = coeffs"
    unfolding s2 by (simp add: getSVec_proj read_bdot_proj read_field_proj u1)
  have b3: "bdot_index ?b3 = 1" "omega_index ?b3 = - 1" "g_W ?b3 = g_W ?st2"
    "g_Bt ?st3 = g_Bt ?b3" "bessel_coeff ?b3 = coeffs"
    unfolding s3
    by (simp_all add: getSVec_proj getOmega_proj read_bdot_proj read_field_proj i2 sm k2)
  have W3: "g_W ?st3 = APPLY_FBESSEL coeffs
                  (slot_upd (g_W ?st2) 0
                     (VECTOR_MIXED (\<lambda>c. fdiv (fmul c freq_f) (NORM2 (slot (g_Bt ?st3) 0)))
                        (CROSS_PRODUCT (slot (g_Bt ?st3) 1) (slot (g_Bt ?st3) 0)))) 0"
  proof -
    have "g_W (getOmega ?b3) = APPLY_FBESSEL coeffs
                  (slot_upd (g_W ?st2) 0
                     (VECTOR_MIXED (\<lambda>c. fdiv (fmul c freq_f) (NORM2 (slot (g_Bt ?b3) 0)))
                        (CROSS_PRODUCT (slot (g_Bt ?b3) 1) (slot (g_Bt ?b3) 0)))) 0"
      by (subst getOmega_W[OF o]) (simp_all add: b3(1,2,3,5) sm p)
    moreover have "g_W ?st3 = g_W (getOmega ?b3)" by (simp add: s3 getSVec_proj)
    ultimately show ?thesis by (simp only: b3(4))
  qed
  show ?thesis
    using c1 c2 c3 r1 u1(1,2,3) u2 B1 B2 Bt2 S2 W3
    by (simp add: case_prod_beta cursors_at_def cur_def)
qed

end
